theory Spec2Isabelle
  imports Complex_Main
begin

section \<open>The ElasticNet L1 attack of advertorch/attacks/ead.py\<close>

text \<open>
  Tensors are modelled by lists: an image is the flat list of its elements, a batch is the
  list of its images, a per-sample vector is a list with one entry per sample. Floating
  point numbers are modelled by the reals, so rounding, infinities and NaN are outside
  the model. Class labels are integers, because the sentinel \<open>INVALID_LABEL\<close> is
  \<open>-1\<close>.
\<close>

type_synonym image = "real list"
type_synonym batch = "image list"

subsection \<open>Module constants\<close>

definition DIST_UPPER :: real where "DIST_UPPER = 10 ^ 10"
definition COEFF_UPPER :: real where "COEFF_UPPER = 10 ^ 10"
definition INVALID_LABEL :: int where "INVALID_LABEL = - 1"
definition REPEAT_STEP :: nat where "REPEAT_STEP = 10"
definition ONE_MINUS_EPS :: real where "ONE_MINUS_EPS = 999999 / 1000000"
definition UPPER_CHECK :: real where "UPPER_CHECK = 10 ^ 9"
definition PREV_LOSS_INIT :: real where "PREV_LOSS_INIT = 10 ^ 6"
definition TARGET_MULT :: real where "TARGET_MULT = 10000"
definition NUM_CHECKS :: nat where "NUM_CHECKS = 10"

subsection \<open>Errors\<close>

text \<open>
  \<open>UnboundLocalError\<close>: \<open>run\<close> reads \<open>crit\<close> when neither branch of its
  \<open>if\<close>/\<open>elif\<close> assigned it. \<open>IndexError\<close>: a label that does not index a
  row of class scores. \<open>RuntimeError\<close>: torch refuses \<open>max\<close> over a dimension of
  size zero (a classifier without classes), and the distance functions refuse an empty
  batch.
\<close>

datatype error = UnboundLocalError | IndexError | RuntimeError

subsection \<open>The attack object\<close>

record attack =
  num_classes :: nat
  confidence :: real
  targeted :: bool
  learning_rate :: real
  binary_search_steps :: nat
  max_iterations :: nat
  abort_early :: bool
  initial_const :: real
  clip_min :: real
  clip_max :: real
  beta :: real
  repeat :: bool
  decision_rule :: string

text \<open>
  \<open>__init__\<close> stores its arguments and computes \<open>repeat\<close>. It accepts every
  \<open>decision_rule\<close>: there is no check, so construction never fails. (The argument
  \<open>loss_fn\<close> is overwritten by \<open>None\<close> and plays no role.)
\<close>

definition init ::
  "nat \<Rightarrow> real \<Rightarrow> bool \<Rightarrow> real \<Rightarrow> nat \<Rightarrow> nat \<Rightarrow> bool \<Rightarrow> real \<Rightarrow> real \<Rightarrow> real \<Rightarrow> real \<Rightarrow> string
     \<Rightarrow> error + attack" where
  "init num_classes' confidence' targeted' learning_rate' binary_search_steps'
        max_iterations' abort_early' initial_const' clip_min' clip_max' beta' decision_rule' =
     Inr \<lparr> num_classes = num_classes', confidence = confidence', targeted = targeted',
           learning_rate = learning_rate', binary_search_steps = binary_search_steps',
           max_iterations = max_iterations', abort_early = abort_early',
           initial_const = initial_const', clip_min = clip_min', clip_max = clip_max',
           beta = beta', repeat = (binary_search_steps' \<ge> REPEAT_STEP),
           decision_rule = decision_rule' \<rparr>"

subsection \<open>External collaborators\<close>

text \<open>
  The classifier and automatic differentiation are not part of the repository; they are
  parameters of the model. \<open>predict\<close> gives, for one image, the score of each class
  index; the row of scores of an image is read off at the indices below
  \<open>num_classes\<close>, so every row has \<open>num_classes\<close> entries, and the classifier treats
  the samples of a batch independently. \<open>backward\<close> is the gradient of the
  optimisation loss with respect to the slack variable, as \<open>loss_opt.backward()\<close>
  leaves it; \<open>polynomial_decay\<close> is the learning-rate schedule of
  \<open>advertorch.utils\<close>, given the initial rate, the step and the number of steps.
\<close>

record env =
  predict :: "image \<Rightarrow> nat \<Rightarrow> real"
  backward :: "batch \<Rightarrow> batch \<Rightarrow> real list list \<Rightarrow> real list \<Rightarrow> batch"
  polynomial_decay :: "real \<Rightarrow> nat \<Rightarrow> nat \<Rightarrow> real"

definition predict_batch :: "env \<Rightarrow> attack \<Rightarrow> batch \<Rightarrow> real list list" where
  "predict_batch e a xs = map (\<lambda>img. map (predict e img) [0..<num_classes a]) xs"

text \<open>
  Modelled from the spec: \<open>calc_l2distsq\<close> and \<open>calc_l1dist\<close> of
  \<open>advertorch.utils\<close>, the squared L2 and the L1 distance of two equal-shaped batches,
  one scalar per sample. An empty batch is a violated precondition (the batch size must
  be at least 1): the functions raise on it. \<open>l2distsq_rows\<close> and
  \<open>l1dist_rows\<close> are the values on a batch with samples.
\<close>

definition l2distsq1 :: "image \<Rightarrow> image \<Rightarrow> real" where
  "l2distsq1 u v = sum_list (map2 (\<lambda>p q. (p - q)\<^sup>2) u v)"

definition l1dist1 :: "image \<Rightarrow> image \<Rightarrow> real" where
  "l1dist1 u v = sum_list (map2 (\<lambda>p q. \<bar>p - q\<bar>) u v)"

definition l2distsq_rows :: "batch \<Rightarrow> batch \<Rightarrow> real list" where
  "l2distsq_rows us vs = map2 l2distsq1 us vs"

definition l1dist_rows :: "batch \<Rightarrow> batch \<Rightarrow> real list" where
  "l1dist_rows us vs = map2 l1dist1 us vs"

definition calc_l2distsq :: "batch \<Rightarrow> batch \<Rightarrow> error + real list" where
  "calc_l2distsq us vs =
     (if us = [] \<or> vs = [] then Inl RuntimeError else Inr (l2distsq_rows us vs))"

definition calc_l1dist :: "batch \<Rightarrow> batch \<Rightarrow> error + real list" where
  "calc_l1dist us vs =
     (if us = [] \<or> vs = [] then Inl RuntimeError else Inr (l1dist_rows us vs))"

text \<open>
  Modelled from the spec: \<open>clamp\<close> of \<open>advertorch.utils\<close> with only \<open>min\<close> or only
  \<open>max\<close> given, on one element.
\<close>

definition clamp_min :: "real \<Rightarrow> real \<Rightarrow> real" where
  "clamp_min v lo = max v lo"

definition clamp_max :: "real \<Rightarrow> real \<Rightarrow> real" where
  "clamp_max v hi = min v hi"

text \<open>
  Modelled from the spec: \<open>to_one_hot\<close> of \<open>advertorch.utils\<close>: a row with exactly
  one \<open>1\<close>, at the label; a label outside the classes is an index error.
\<close>

definition one_hot_row :: "nat \<Rightarrow> int \<Rightarrow> real list" where
  "one_hot_row c l = map (\<lambda>j. if int j = l then 1 else 0) [0..<c]"

definition to_one_hot :: "int list \<Rightarrow> nat \<Rightarrow> error + real list list" where
  "to_one_hot y c =
     (if list_all (\<lambda>l. 0 \<le> l \<and> l < int c) y then Inr (map (one_hot_row c) y)
      else Inl IndexError)"

text \<open>
  Modelled from the spec: \<open>is_successful\<close> of \<open>advertorch.attacks.utils\<close>, on one
  sample: a targeted attack succeeds when the prediction is the target, an untargeted one
  when it differs from the true label.
\<close>

definition is_successful :: "int \<Rightarrow> int \<Rightarrow> bool \<Rightarrow> bool" where
  "is_successful y1 y2 targeted' = (if targeted' then y1 = y2 else y1 \<noteq> y2)"

subsection \<open>The two losses\<close>

text \<open>
  \<open>real\<close> and \<open>other\<close> of one sample, from its one-hot row and its row of scores;
  \<open>.max(1)\<close> is the largest entry of the row.
\<close>

definition row_max :: "real list \<Rightarrow> real" where
  "row_max r = (case r of [] \<Rightarrow> 0 | v # vs \<Rightarrow> fold max vs v)"

definition real_score :: "real list \<Rightarrow> real list \<Rightarrow> real" where
  "real_score oh out = sum_list (map2 (*) oh out)"

definition other_score :: "real list \<Rightarrow> real list \<Rightarrow> real" where
  "other_score oh out = row_max (map2 (\<lambda>h v. (1 - h) * v - h * TARGET_MULT) oh out)"

definition loss1_row :: "attack \<Rightarrow> real list \<Rightarrow> real list \<Rightarrow> real" where
  "loss1_row a oh out =
     (if targeted a then clamp_min (other_score oh out - real_score oh out + confidence a) 0
      else clamp_min (real_score oh out - other_score oh out + confidence a) 0)"

definition loss_fn ::
  "attack \<Rightarrow> real list list \<Rightarrow> real list list \<Rightarrow> real list \<Rightarrow> real list \<Rightarrow> real list
     \<Rightarrow> error + real" where
  "loss_fn a output y_onehot l1dist l2distsq const =
     (if num_classes a = 0 then Inl RuntimeError
      else
        let loss1 = map2 (loss1_row a) y_onehot output;
            loss21 = sum_list l1dist;
            loss2 = sum_list l2distsq;
            loss1' = sum_list (map2 (*) const loss1)
        in Inr (loss1' + loss2 + (beta a * loss21)))"

definition loss_opt_fn ::
  "attack \<Rightarrow> real list list \<Rightarrow> real list list \<Rightarrow> real list \<Rightarrow> real list \<Rightarrow> error + real" where
  "loss_opt_fn a output_y y_onehot l2distsq_y const =
     (if num_classes a = 0 then Inl RuntimeError
      else
        let loss1_y = map2 (loss1_row a) y_onehot output_y;
            loss1_y' = sum_list (map2 (*) const loss1_y);
            loss2_y = sum_list l2distsq_y
        in Inr (loss1_y' + loss2_y))"

subsection \<open>The success predicate\<close>

text \<open>
  \<open>torch.argmax\<close> and the index returned by \<open>torch.max\<close>: the first position of the
  largest entry.
\<close>

fun argmax_acc :: "nat \<Rightarrow> real \<Rightarrow> nat \<Rightarrow> real list \<Rightarrow> nat" where
  "argmax_acc bi bv i [] = bi"
| "argmax_acc bi bv i (v # vs) =
     (if bv < v then argmax_acc i v (Suc i) vs else argmax_acc bi bv (Suc i) vs)"

definition argmax :: "real list \<Rightarrow> nat" where
  "argmax r = (case r of [] \<Rightarrow> 0 | v # vs \<Rightarrow> argmax_acc 0 v 1 vs)"

text \<open>
  Python indexing of a row by a label: a negative label counts from the end, a label
  outside the row raises.
\<close>

definition py_index :: "nat \<Rightarrow> int \<Rightarrow> nat option" where
  "py_index n l =
     (let j = (if l < 0 then int n + l else l)
      in if 0 \<le> j \<and> j < int n then Some (nat j) else None)"

text \<open>
  \<open>_is_successful\<close> with \<open>is_logits = True\<close>, on one sample: the confidence is
  subtracted from (targeted) or added to (untargeted) the score of the label, and the
  arg-max of the adjusted row is compared with the label.
\<close>

definition adjusted_row :: "attack \<Rightarrow> real list \<Rightarrow> nat \<Rightarrow> real list" where
  "adjusted_row a row j =
     (if targeted a then row[j := row ! j - confidence a]
      else row[j := row ! j + confidence a])"

definition row_successful :: "attack \<Rightarrow> real list \<Rightarrow> int \<Rightarrow> bool" where
  "row_successful a row l =
     (case py_index (length row) l of
        None \<Rightarrow> False
      | Some j \<Rightarrow> is_successful (int (argmax (adjusted_row a row j))) l (targeted a))"

definition labels_index :: "real list list \<Rightarrow> int list \<Rightarrow> bool" where
  "labels_index output label =
     list_all (\<lambda>(row, l). py_index (length row) l \<noteq> None) (zip output label)"

definition is_successful_logits ::
  "attack \<Rightarrow> real list list \<Rightarrow> int list \<Rightarrow> error + bool list" where
  "is_successful_logits a output label =
     (if labels_index output label then Inr (map2 (row_successful a) output label)
      else Inl IndexError)"

text \<open>
  \<open>_is_successful\<close> with \<open>is_logits = False\<close>, as \<open>_update_loss_coeffs\<close> calls it
  on one predicted label: the sentinel is reported as no success before the external
  predicate is asked.
\<close>

definition is_successful_label :: "attack \<Rightarrow> int \<Rightarrow> int \<Rightarrow> bool" where
  "is_successful_label a pred label =
     (if pred = INVALID_LABEL then False else is_successful pred label (targeted a))"

subsection \<open>The proximal step\<close>

text \<open>
  \<open>_fast_iterative_shrinkage_thresholding\<close> on one element: \<open>x\<close> the original,
  \<open>s\<close> the slack, \<open>n\<close> the previous candidate. The result is the new slack and the
  new candidate \<open>assign_newimg\<close>. The three conditions are cast to 0 or 1 and weight a
  sum, as in the source.
\<close>

definition zt_of :: "nat \<Rightarrow> real" where
  "zt_of step = real step / (real step + 3)"

definition assign_newimg :: "attack \<Rightarrow> real \<Rightarrow> real \<Rightarrow> real" where
  "assign_newimg a x s =
     (let upper = clamp_max (s - beta a) (clip_max a);
          lower = clamp_min (s + beta a) (clip_min a);
          diff = s - x;
          cond1 = (of_bool (diff > beta a) :: real);
          cond2 = (of_bool (\<bar>diff\<bar> \<le> beta a) :: real);
          cond3 = (of_bool (diff < - beta a) :: real)
      in (cond1 * upper) + (cond2 * x) + (cond3 * lower))"

definition fista_elem :: "attack \<Rightarrow> nat \<Rightarrow> real \<Rightarrow> real \<Rightarrow> real \<Rightarrow> real \<times> real" where
  "fista_elem a step x s n =
     (let zt = zt_of step; c = assign_newimg a x s
      in (c + (zt * (c - n)), c))"

definition fista_image :: "attack \<Rightarrow> nat \<Rightarrow> image \<Rightarrow> image \<Rightarrow> image \<Rightarrow> image \<times> image" where
  "fista_image a step x s n =
     (let r = map (\<lambda>(xe, se, ne). fista_elem a step xe se ne) (zip x (zip s n))
      in (map fst r, map snd r))"

definition fast_iterative_shrinkage_thresholding ::
  "attack \<Rightarrow> nat \<Rightarrow> batch \<Rightarrow> batch \<Rightarrow> batch \<Rightarrow> batch \<times> batch" where
  "fast_iterative_shrinkage_thresholding a step x slack' newimg' =
     (let r = map (\<lambda>(xi, si, ni). fista_image a step xi si ni) (zip x (zip slack' newimg'))
      in (map fst r, map snd r))"

subsection \<open>The state of one call of perturb\<close>

text \<open>
  \<open>perturb\<close> allocates three per-sample tensors for the binary search:
  \<open>coeff_lower_bound\<close>, \<open>coeff_upper_bound\<close> and the tensor first bound to
  \<open>loss_coeffs\<close>. The assignment \<open>loss_coeffs = coeff_upper_bound\<close> of the last
  outer step rebinds the variable to the tensor of the upper bounds, it does not copy, so
  the tensors live in a store and the variable \<open>loss_coeffs\<close> holds a reference.
\<close>

datatype tensor_ref = CoeffLower | CoeffUpper | LossCoeffs

type_synonym store = "tensor_ref \<Rightarrow> real list"

definition store_set :: "store \<Rightarrow> tensor_ref \<Rightarrow> nat \<Rightarrow> real \<Rightarrow> store" where
  "store_set h r i v = h(r := (h r)[i := v])"

text \<open>
  The field \<open>history\<close> is not a variable of the program: it records, for the
  statements about a whole run, the arguments \<open>adv_img\<close>, \<open>dist\<close> and
  \<open>output\<close> of every call of \<open>_update_if_smaller_dist_succeed\<close>, latest first.
\<close>

record state =
  global_step :: nat
  slack :: batch
  newimg :: batch
  lr :: real
  prevloss :: real
  cur_dist :: "real list"
  cur_labels :: "int list"
  final_dist :: "real list"
  final_labels :: "int list"
  final_advs :: batch
  heap :: store
  loss_coeffs :: tensor_ref
  history :: "(batch \<times> real list \<times> real list list) list"

subsection \<open>One gradient step\<close>

text \<open>
  \<open>optimizer.step()\<close> of plain SGD on the single parameter \<open>slack\<close>, with the
  gradient that \<open>backward\<close> computed and the optimizer's current learning rate.
\<close>

definition sgd_step :: "real \<Rightarrow> batch \<Rightarrow> batch \<Rightarrow> batch" where
  "sgd_step rate slack' grad = map2 (map2 (\<lambda>p g. p - rate * g)) slack' grad"

definition train :: "env \<Rightarrow> attack \<Rightarrow> batch \<Rightarrow> real list list \<Rightarrow> state \<Rightarrow> error + state" where
  "train e a x y_onehot s =
     (let output_y = predict_batch e a (slack s);
          coeffs = heap s (loss_coeffs s)
      in case calc_l2distsq (slack s) x of
           Inl err \<Rightarrow> Inl err
         | Inr l2distsq_y \<Rightarrow>
             (case loss_opt_fn a output_y y_onehot l2distsq_y coeffs of
                Inl err \<Rightarrow> Inl err
              | Inr loss_opt \<Rightarrow>
                  Inr (s\<lparr> slack := sgd_step (lr s) (slack s)
                                    (backward e x (slack s) y_onehot coeffs),
                          global_step := global_step s + 1 \<rparr>)))"

subsection \<open>Evaluating a candidate\<close>

definition crit_of :: "attack \<Rightarrow> real list \<Rightarrow> real list \<Rightarrow> real list option" where
  "crit_of a l2distsq l1dist =
     (if decision_rule a = ''EN'' then Some (map2 (\<lambda>p q. p + (q * beta a)) l2distsq l1dist)
      else if decision_rule a = ''L1'' then Some l1dist
      else None)"

definition run ::
  "env \<Rightarrow> attack \<Rightarrow> batch \<Rightarrow> batch \<Rightarrow> real list list \<Rightarrow> real list
     \<Rightarrow> error + (real \<times> real list \<times> real list list)" where
  "run e a x newimg' y_onehot coeffs =
     (let output = predict_batch e a newimg'
      in case calc_l2distsq newimg' x of
           Inl err \<Rightarrow> Inl err
         | Inr l2distsq \<Rightarrow>
             (case calc_l1dist newimg' x of
                Inl err \<Rightarrow> Inl err
              | Inr l1dist \<Rightarrow>
                  (let crit = crit_of a l2distsq l1dist
                   in case loss_fn a output y_onehot l1dist l2distsq coeffs of
                        Inl err \<Rightarrow> Inl err
                      | Inr loss \<Rightarrow>
                          (case crit of
                             None \<Rightarrow> Inl UnboundLocalError
                           | Some c \<Rightarrow> Inr (loss, c, output)))))"

subsection \<open>Keeping the best candidate\<close>

text \<open>\<open>t[mask] = v[mask]\<close> on tensors of one shape.\<close>

definition masked_set :: "bool list \<Rightarrow> 'a list \<Rightarrow> 'a list \<Rightarrow> 'a list" where
  "masked_set msk v t = map (\<lambda>(m, n, old). if m then n else old) (zip msk (zip v t))"

definition smaller_and :: "real list \<Rightarrow> real list \<Rightarrow> bool list \<Rightarrow> bool list" where
  "smaller_and dist' bound succ = map (\<lambda>(d, b, ok). d < b \<and> ok) (zip dist' (zip bound succ))"

definition update_if_smaller_dist_succeed ::
  "attack \<Rightarrow> batch \<Rightarrow> int list \<Rightarrow> real list list \<Rightarrow> real list \<Rightarrow> state \<Rightarrow> error + state" where
  "update_if_smaller_dist_succeed a adv_img labs output dist' s =
     (let output_label = map (\<lambda>row. int (argmax row)) output
      in case is_successful_logits a output labs of
           Inl err \<Rightarrow> Inl err
         | Inr succ \<Rightarrow>
             (let msk = smaller_and dist' (cur_dist s) succ;
                  s1 = s\<lparr> cur_dist := masked_set msk dist' (cur_dist s),
                          cur_labels := masked_set msk output_label (cur_labels s) \<rparr>;
                  msk' = smaller_and dist' (final_dist s1) succ
              in Inr (s1\<lparr> final_dist := masked_set msk' dist' (final_dist s1),
                         final_labels := masked_set msk' output_label (final_labels s1),
                         final_advs := masked_set msk' adv_img (final_advs s1) \<rparr>)))"

subsection \<open>Updating the coefficients\<close>

text \<open>
  The body of the loop of \<open>_update_loss_coeffs\<close> for sample \<open>ii\<close>; \<open>lc\<close>,
  \<open>ub\<close> and \<open>lb\<close> are the tensors passed as \<open>loss_coeffs\<close>,
  \<open>coeff_upper_bound\<close> and \<open>coeff_lower_bound\<close>. Every read and write goes through
  the store, in the order of the source.
\<close>

definition update_loss_coeffs_at ::
  "attack \<Rightarrow> int list \<Rightarrow> int list \<Rightarrow> tensor_ref \<Rightarrow> tensor_ref \<Rightarrow> tensor_ref \<Rightarrow> nat \<Rightarrow> store
     \<Rightarrow> store" where
  "update_loss_coeffs_at a labs cur_labels' lc ub lb ii h =
     (if is_successful_label a (cur_labels' ! ii) (labs ! ii) then
        (let h1 = store_set h ub ii (min (h ub ! ii) (h lc ! ii))
         in if h1 ub ! ii < UPPER_CHECK
            then store_set h1 lc ii ((h1 lb ! ii + h1 ub ! ii) / 2)
            else h1)
      else
        (let h1 = store_set h lb ii (max (h lb ! ii) (h lc ! ii))
         in if h1 ub ! ii < UPPER_CHECK
            then store_set h1 lc ii ((h1 lb ! ii + h1 ub ! ii) / 2)
            else store_set h1 lc ii (h1 lc ! ii * 10)))"

definition update_loss_coeffs ::
  "attack \<Rightarrow> int list \<Rightarrow> int list \<Rightarrow> nat \<Rightarrow> tensor_ref \<Rightarrow> tensor_ref \<Rightarrow> tensor_ref \<Rightarrow> store
     \<Rightarrow> store" where
  "update_loss_coeffs a labs cur_labels' batch_size lc ub lb h =
     fold (update_loss_coeffs_at a labs cur_labels' lc ub lb) [0..<batch_size] h"

subsection \<open>The inner loop\<close>

text \<open>
  One iteration of the loop over \<open>ii\<close>. The result says whether the iteration left the
  loop by \<open>break\<close>; a \<open>break\<close> comes before the best candidate is updated.
\<close>

definition check_every :: "attack \<Rightarrow> nat" where
  "check_every a =
     (if max_iterations a div NUM_CHECKS \<noteq> 0 then max_iterations a div NUM_CHECKS else 1)"

definition inner_body ::
  "env \<Rightarrow> attack \<Rightarrow> batch \<Rightarrow> int list \<Rightarrow> real list list \<Rightarrow> nat \<Rightarrow> state
     \<Rightarrow> error + (bool \<times> state)" where
  "inner_body e a x y y_onehot ii s =
     (case train e a x y_onehot s of
        Inl err \<Rightarrow> Inl err
      | Inr s1 \<Rightarrow>
          (let s2 = s1\<lparr> lr := polynomial_decay e (learning_rate a) (global_step s1)
                                 (max_iterations a) \<rparr>;
               r = fast_iterative_shrinkage_thresholding a (global_step s2) x
                     (slack s2) (newimg s2);
               s3 = s2\<lparr> slack := fst r, newimg := snd r \<rparr>
           in case run e a x (newimg s3) y_onehot (heap s3 (loss_coeffs s3)) of
                Inl err \<Rightarrow> Inl err
              | Inr (loss, dist', output) \<Rightarrow>
                  (let adv_img = newimg s3;
                       checking = (abort_early a \<and> ii mod check_every a = 0)
                   in if checking \<and> loss > prevloss s3 * ONE_MINUS_EPS then Inr (True, s3)
                      else
                        (let s4 = (if checking then s3\<lparr> prevloss := loss \<rparr> else s3);
                             s5 = s4\<lparr> history := (adv_img, dist', output) # history s4 \<rparr>
                         in case update_if_smaller_dist_succeed a adv_img y output dist' s5 of
                              Inl err \<Rightarrow> Inl err
                            | Inr s6 \<Rightarrow> Inr (False, s6)))))"

fun inner_loop ::
  "env \<Rightarrow> attack \<Rightarrow> batch \<Rightarrow> int list \<Rightarrow> real list list \<Rightarrow> nat list \<Rightarrow> state
     \<Rightarrow> error + state" where
  "inner_loop e a x y y_onehot [] s = Inr s"
| "inner_loop e a x y y_onehot (ii # iis) s =
     (case inner_body e a x y y_onehot ii s of
        Inl err \<Rightarrow> Inl err
      | Inr (stop, s') \<Rightarrow> if stop then Inr s' else inner_loop e a x y y_onehot iis s')"

subsection \<open>The binary search\<close>

definition outer_body ::
  "env \<Rightarrow> attack \<Rightarrow> batch \<Rightarrow> int list \<Rightarrow> real list list \<Rightarrow> nat \<Rightarrow> state \<Rightarrow> error + state" where
  "outer_body e a x y y_onehot outer_step s =
     (let batch_size = length x;
          s1 = s\<lparr> global_step := 0, slack := x, newimg := x, lr := learning_rate a,
                  cur_dist := replicate batch_size DIST_UPPER,
                  cur_labels := replicate batch_size INVALID_LABEL,
                  prevloss := PREV_LOSS_INIT \<rparr>;
          s2 = (if repeat a \<and> int outer_step = int (binary_search_steps a) - 1
                then s1\<lparr> loss_coeffs := CoeffUpper \<rparr> else s1)
      in case inner_loop e a x y y_onehot [0..<max_iterations a] s2 of
           Inl err \<Rightarrow> Inl err
         | Inr s3 \<Rightarrow>
             Inr (s3\<lparr> heap := update_loss_coeffs a y (cur_labels s3) batch_size
                                 (loss_coeffs s3) CoeffUpper CoeffLower (heap s3) \<rparr>))"

fun outer_loop ::
  "env \<Rightarrow> attack \<Rightarrow> batch \<Rightarrow> int list \<Rightarrow> real list list \<Rightarrow> nat list \<Rightarrow> state
     \<Rightarrow> error + state" where
  "outer_loop e a x y y_onehot [] s = Inr s"
| "outer_loop e a x y y_onehot (outer_step # steps) s =
     (case outer_body e a x y y_onehot outer_step s of
        Inl err \<Rightarrow> Inl err
      | Inr s' \<Rightarrow> outer_loop e a x y y_onehot steps s')"

text \<open>
  The state when the binary search starts. \<open>y\<close> is the label vector after the label
  handling of \<open>LabelMixin\<close>, which is not part of the repository; the model covers the
  calls with one label per sample. The variables that every outer step resets before
  use (\<open>slack\<close>, \<open>newimg\<close>, the optimizer, \<open>cur_dist\<close>, \<open>cur_labels\<close>,
  \<open>prevloss\<close>, \<open>global_step\<close>) do not yet exist in the program and start with
  placeholder values here.
\<close>

definition init_store :: "attack \<Rightarrow> batch \<Rightarrow> int list \<Rightarrow> store" where
  "init_store a x y =
     (\<lambda>r. case r of
             CoeffLower \<Rightarrow> replicate (length x) 0
           | CoeffUpper \<Rightarrow> replicate (length x) COEFF_UPPER
           | LossCoeffs \<Rightarrow> map (\<lambda>_. 1 * initial_const a) y)"

definition init_state :: "attack \<Rightarrow> batch \<Rightarrow> int list \<Rightarrow> state" where
  "init_state a x y =
     \<lparr> global_step = 0, slack = [], newimg = [], lr = learning_rate a,
       prevloss = PREV_LOSS_INIT, cur_dist = [], cur_labels = [],
       final_dist = replicate (length x) DIST_UPPER,
       final_labels = replicate (length x) INVALID_LABEL,
       final_advs = x,
       heap = init_store a x y, loss_coeffs = LossCoeffs, history = [] \<rparr>"

definition perturb_state :: "env \<Rightarrow> attack \<Rightarrow> batch \<Rightarrow> int list \<Rightarrow> error + state" where
  "perturb_state e a x y =
     (case to_one_hot y (num_classes a) of
        Inl err \<Rightarrow> Inl err
      | Inr y_onehot \<Rightarrow>
          outer_loop e a x y y_onehot [0..<binary_search_steps a] (init_state a x y))"

definition perturb :: "env \<Rightarrow> attack \<Rightarrow> batch \<Rightarrow> int list \<Rightarrow> error + batch" where
  "perturb e a x y =
     (case perturb_state e a x y of Inl err \<Rightarrow> Inl err | Inr s \<Rightarrow> Inr (final_advs s))"

section \<open>One sample along a run\<close>

text \<open>
  What the best-tracking update does to one sample: the triple of the best distortion,
  its label and its image is replaced by the candidate's when the candidate is a
  confidence-adjusted success with a strictly smaller distortion. \<open>sample_of\<close> reads
  sample \<open>i\<close> of a recorded call, \<open>final_of\<close> the triple of sample \<open>i\<close> in a
  state, and \<open>replay\<close> applies the recorded calls, oldest first, to a triple.
\<close>

type_synonym best = "real \<times> int \<times> image"

definition keep_best :: "attack \<Rightarrow> int \<Rightarrow> real \<times> image \<times> real list \<Rightarrow> best \<Rightarrow> best" where
  "keep_best a l c b =
     (case c of (d, img, row) \<Rightarrow>
        if d < fst b \<and> row_successful a row l then (d, int (argmax row), img) else b)"

definition sample_of ::
  "nat \<Rightarrow> batch \<times> real list \<times> real list list \<Rightarrow> real \<times> image \<times> real list" where
  "sample_of i c = (case c of (adv_img, dist', output) \<Rightarrow> (dist' ! i, adv_img ! i, output ! i))"

definition final_of :: "nat \<Rightarrow> state \<Rightarrow> best" where
  "final_of i s = (final_dist s ! i, final_labels s ! i, final_advs s ! i)"

definition replay ::
  "attack \<Rightarrow> int \<Rightarrow> nat \<Rightarrow> (batch \<times> real list \<times> real list list) list \<Rightarrow> best \<Rightarrow> best" where
  "replay a l i calls b = foldr (\<lambda>c. keep_best a l (sample_of i c)) calls b"

text \<open>
  The recorded calls of a run on \<open>x\<close> are candidates of the proximal step, with the
  classifier's output and the decision rule's criterion for them.
\<close>

definition candidate_call ::
  "env \<Rightarrow> attack \<Rightarrow> batch \<Rightarrow> batch \<times> real list \<times> real list list \<Rightarrow> bool" where
  "candidate_call e a x c =
     (case c of (adv_img, dist', output) \<Rightarrow>
        length adv_img = length x \<and> length dist' = length x
        \<and> output = predict_batch e a adv_img
        \<and> crit_of a (l2distsq_rows adv_img x) (l1dist_rows adv_img x) = Some dist'
        \<and> (\<exists>step sl ni. adv_img = snd (fast_iterative_shrinkage_thresholding a step x sl ni)))"

text \<open>The shapes of the per-sample variables of a state, for a batch of \<open>n\<close> samples.\<close>

definition final_shaped :: "nat \<Rightarrow> state \<Rightarrow> bool" where
  "final_shaped n s =
     (length (final_dist s) = n \<and> length (final_labels s) = n \<and> length (final_advs s) = n)"

definition inner_shaped :: "nat \<Rightarrow> state \<Rightarrow> bool" where
  "inner_shaped n s =
     (final_shaped n s \<and> length (slack s) = n \<and> length (newimg s) = n
      \<and> length (cur_dist s) = n \<and> length (cur_labels s) = n)"

text \<open>
  A stretch of a run from state \<open>s\<close> to state \<open>s'\<close> that made the recorded calls
  \<open>new\<close>: they are candidates, and replaying them on the best triple of \<open>s\<close> gives
  that of \<open>s'\<close>, for every sample. \<open>cur_tracked\<close> says the same of \<open>cur_dist\<close>
  and \<open>cur_labels\<close>, which keep no image.
\<close>

definition tracked ::
  "env \<Rightarrow> attack \<Rightarrow> batch \<Rightarrow> int list \<Rightarrow> (batch \<times> real list \<times> real list list) list
     \<Rightarrow> state \<Rightarrow> state \<Rightarrow> bool" where
  "tracked e a x y new s s' =
     (history s' = new @ history s \<and> list_all (candidate_call e a x) new
      \<and> final_shaped (length x) s'
      \<and> (\<forall>i<length x. final_of i s' = replay a (y ! i) i new (final_of i s)))"

definition cur_tracked ::
  "attack \<Rightarrow> batch \<Rightarrow> int list \<Rightarrow> (batch \<times> real list \<times> real list list) list
     \<Rightarrow> state \<Rightarrow> state \<Rightarrow> bool" where
  "cur_tracked a x y new s s' =
     (\<forall>i<length x. \<forall>img. \<exists>img'.
        replay a (y ! i) i new (cur_dist s ! i, cur_labels s ! i, img)
          = (cur_dist s' ! i, cur_labels s' ! i, img'))"

text \<open>
  Sample \<open>i\<close> between two states of a run with the recorded calls \<open>new\<close> in between:
  the best distortion has not grown, and either the best triple is untouched or its image
  and its distortion are those of one recorded candidate, the distortion being the
  decision rule's criterion of that candidate and strictly smaller than before.
\<close>

definition improved ::
  "attack \<Rightarrow> batch \<Rightarrow> nat \<Rightarrow> (batch \<times> real list \<times> real list list) list \<Rightarrow> state \<Rightarrow> state
     \<Rightarrow> bool" where
  "improved a x i new s s' =
     (final_dist s' ! i \<le> final_dist s ! i
      \<and> (final_of i s' = final_of i s
         \<or> list_ex (\<lambda>c. case c of (adv_img, dist', output) \<Rightarrow>
               final_advs s' ! i = adv_img ! i \<and> final_dist s' ! i = dist' ! i
               \<and> dist' ! i < final_dist s ! i
               \<and> crit_of a (l2distsq_rows adv_img x) (l1dist_rows adv_img x) = Some dist') new))"

section \<open>The box of valid inputs\<close>

definition in_box :: "attack \<Rightarrow> real \<Rightarrow> bool" where
  "in_box a v = (clip_min a \<le> v \<and> v \<le> clip_max a)"

definition boxed :: "attack \<Rightarrow> batch \<Rightarrow> bool" where
  "boxed a xs = list_all (list_all (in_box a)) xs"

section \<open>Example instances\<close>

text \<open>
  A small attack and a small classifier on which the statements below are evaluated:
  two classes, images of one element in \<open>[0, 1]\<close>, an untargeted attack with the
  elastic-net rule and one iteration per binary-search step. The classifier scores
  class 0 with the constant one half and class 1 with the sum of the image. \<open>backward\<close>
  is the gradient of the optimisation loss of this classifier for an untargeted attack
  on label 0 with confidence 0: the margin \<open>1/2 - sum(slack[i])\<close> contributes
  \<open>-coeff[i]\<close> while it is positive, the squared distance contributes
  \<open>2 * (slack - x)\<close>. The runs below have one iteration per binary-search step, so
  the learning-rate schedule is only asked at the last step, where a polynomial decay
  \<open>rate * (1 - step / steps) ^ power\<close> is \<open>0\<close> for every positive power; the
  linear one stands for it.
\<close>

definition demo_attack :: attack where
  "demo_attack =
     \<lparr> num_classes = 2, confidence = 0, targeted = False, learning_rate = 1 / 10,
       binary_search_steps = 1, max_iterations = 1, abort_early = False,
       initial_const = 2, clip_min = 0, clip_max = 1, beta = 1 / 100,
       repeat = False, decision_rule = ''EN'' \<rparr>"

definition demo_env :: env where
  "demo_env =
     \<lparr> predict = (\<lambda>img j. if j = 0 then 1 / 2 else sum_list img),
       backward = (\<lambda>x slack' y_onehot coeffs.
          map (\<lambda>i. map (\<lambda>j. (if sum_list (slack' ! i) < 1 / 2 then - (coeffs ! i) else 0)
                              + 2 * (slack' ! i ! j - x ! i ! j))
                     [0..<length (slack' ! i)])
              [0..<length slack']),
       polynomial_decay = (\<lambda>rate step steps. rate * (1 - real step / real steps)) \<rparr>"

text \<open>The same attack with a negative \<open>beta\<close>.\<close>

definition negative_beta_attack :: attack where
  "negative_beta_attack = demo_attack\<lparr> beta := - (1 / 2) \<rparr>"

text \<open>
  A store of three two-sample tensors for the coefficient update, as \<open>perturb\<close>
  allocates them for \<open>initial_const = 0.1\<close>.
\<close>

definition demo_store :: store where
  "demo_store =
     (\<lambda>r. case r of
             CoeffLower \<Rightarrow> [0, 0]
           | CoeffUpper \<Rightarrow> [COEFF_UPPER, COEFF_UPPER]
           | LossCoeffs \<Rightarrow> [1 / 10, 1 / 10])"

text \<open>The same attack with a decision rule that is neither \<open>EN\<close> nor \<open>L1\<close>.\<close>

definition bad_rule_attack :: attack where
  "bad_rule_attack = demo_attack\<lparr> decision_rule := ''L2'' \<rparr>"

text \<open>
  An attack with ten binary-search steps of one iteration each, so that \<open>repeat\<close> is
  set, and a classifier that prefers class 0 for every image, so that an untargeted
  attack on label 0 never succeeds. Its margin is constant, so the gradient of the
  optimisation loss is that of the squared distance.
\<close>

definition repeat_attack :: attack where
  "repeat_attack = demo_attack\<lparr> binary_search_steps := 10, max_iterations := 1, repeat := True \<rparr>"

definition stubborn_env :: env where
  "stubborn_env =
     demo_env\<lparr> predict := (\<lambda>img j. if j = 0 then 1 else 0),
               backward := (\<lambda>x slack' y_onehot coeffs.
                  map (\<lambda>i. map (\<lambda>j. 2 * (slack' ! i ! j - x ! i ! j)) [0..<length (slack' ! i)])
                      [0..<length slack']) \<rparr>"

section \<open>The loss as the specification words it\<close>

text \<open>
  The margin of one sample in the words of the specification, from the row of scores and
  the label rather than from a one-hot row: \<open>real\<close> is the score of the labelled
  class, \<open>other\<close> is the best score among the remaining classes and the masking value
  \<open>-TARGET_MULT\<close> that stands in for the labelled class.
\<close>

definition spec_real :: "real list \<Rightarrow> int \<Rightarrow> real" where
  "spec_real row l = row ! nat l"

definition spec_other :: "real list \<Rightarrow> int \<Rightarrow> real" where
  "spec_other row l =
     Max (set (- TARGET_MULT # map (\<lambda>j. row ! j) (filter (\<lambda>j. int j \<noteq> l) [0..<length row])))"

definition spec_margin :: "attack \<Rightarrow> real list \<Rightarrow> int \<Rightarrow> real" where
  "spec_margin a row l =
     (if targeted a then max (spec_other row l - spec_real row l + confidence a) 0
      else max (spec_real row l - spec_other row l + confidence a) 0)"

section \<open>Properties\<close>

subsection \<open>The proximal step\<close>

lemma assign_newimg_cases:
  assumes "0 \<le> beta a"
  shows "assign_newimg a x s =
     (if s - x > beta a then clamp_max (s - beta a) (clip_max a)
      else if \<bar>s - x\<bar> \<le> beta a then x
      else clamp_min (s + beta a) (clip_min a))"
  using assms by (auto simp: assign_newimg_def Let_def)

text \<open>
  Claim C8, as stated, at a negative \<open>beta\<close>: with \<open>beta = -0.5\<close>, \<open>x = 0.5\<close>
  and \<open>slack = 0.7\<close> the difference \<open>0.2\<close> is greater than \<open>beta\<close> and also less
  than \<open>-beta\<close>, so the first and the third condition both hold and the candidate is the
  sum \<open>1 + 0.2\<close> of both clipped values, not \<open>clip(slack - beta, max=clip_max) = 1\<close>.
\<close>

theorem C8_negative_beta_counterexample:
  "7 / 10 - 1 / 2 > beta negative_beta_attack
   \<and> snd (fista_elem negative_beta_attack 1 (1 / 2) (7 / 10) (1 / 2)) = 12 / 10
   \<and> clamp_max (7 / 10 - beta negative_beta_attack) (clip_max negative_beta_attack) = 1"
  by (simp add: negative_beta_attack_def demo_attack_def fista_elem_def assign_newimg_def
      clamp_max_def clamp_min_def Let_def)

text \<open>
  Claim C8, amended: for \<open>beta \<ge> 0\<close> the proximal step computes, on every element,
  the candidate \<open>clip(slack - beta, max=clip_max)\<close> when \<open>diff > beta\<close>, \<open>x\<close> when
  \<open>|diff| \<le> beta\<close> and \<open>clip(slack + beta, min=clip_min)\<close> when \<open>diff < -beta\<close>,
  where \<open>diff = slack - x\<close>; the new slack is
  \<open>candidate + zt * (candidate - newimg)\<close> with \<open>newimg\<close> the previous candidate and
  \<open>zt = step / (step + 3)\<close>.
\<close>

theorem C8_proximal_step:
  assumes "0 \<le> beta a"
  shows "fista_elem a step x s n =
     (let diff = s - x;
          candidate = (if diff > beta a then clamp_max (s - beta a) (clip_max a)
                       else if \<bar>diff\<bar> \<le> beta a then x
                       else clamp_min (s + beta a) (clip_min a));
          zt = real step / (real step + 3)
      in (candidate + zt * (candidate - n), candidate))
     \<and> (\<not> s - x > beta a \<and> \<not> \<bar>s - x\<bar> \<le> beta a \<longrightarrow> s - x < - beta a)"
  using assms by (auto simp: fista_elem_def assign_newimg_cases zt_of_def Let_def)

theorem C8_proximal_step_witness:
  "0 \<le> beta demo_attack
   \<and> fista_elem demo_attack 1 (1 / 2) (8 / 10) (1 / 2) = (79 / 100 + 1 / 4 * (29 / 100), 79 / 100)"
  using C8_proximal_step [of demo_attack 1 "1 / 2" "8 / 10" "1 / 2"]
  by (simp add: demo_attack_def clamp_max_def clamp_min_def Let_def)

subsection \<open>The coefficient update\<close>

text \<open>
  The body of the loop at one index, by cases. With \<open>ok\<close> the success of the sample:
  what the body leaves in \<open>loss_coeffs[ii]\<close> and in the two bounds.
\<close>

lemma update_loss_coeffs_at_cases:
  fixes a labs cl lc ii h
  assumes "lc \<noteq> CoeffLower" and "ii < length (h CoeffLower)"
    and "ii < length (h CoeffUpper)" and "ii < length (h lc)"
  defines "h' \<equiv> update_loss_coeffs_at a labs cl lc CoeffUpper CoeffLower ii h"
  defines "ok \<equiv> is_successful_label a (cl ! ii) (labs ! ii)"
  defines "u1 \<equiv> min (h CoeffUpper ! ii) (h lc ! ii)"
  defines "l1 \<equiv> max (h CoeffLower ! ii) (h lc ! ii)"
  shows "(\<not> ok \<and> \<not> h CoeffUpper ! ii < UPPER_CHECK \<longrightarrow> h' lc ! ii = h lc ! ii * 10)
    \<and> (\<not> ok \<and> h CoeffUpper ! ii < UPPER_CHECK \<longrightarrow> h' lc ! ii = (l1 + h CoeffUpper ! ii) / 2)
    \<and> (ok \<and> u1 < UPPER_CHECK \<longrightarrow> h' lc ! ii = (h CoeffLower ! ii + u1) / 2)
    \<and> (ok \<and> \<not> u1 < UPPER_CHECK \<longrightarrow> h' lc ! ii = h lc ! ii)
    \<and> (ok \<longrightarrow> h' CoeffLower ! ii = h CoeffLower ! ii)
    \<and> (\<not> ok \<longrightarrow> h' CoeffLower ! ii = l1)
    \<and> (lc = LossCoeffs \<longrightarrow> h' CoeffUpper ! ii = (if ok then u1 else h CoeffUpper ! ii))"
  using assms(1-4) unfolding h'_def ok_def u1_def l1_def
  by (cases lc) (auto simp: update_loss_coeffs_at_def store_set_def Let_def)

text \<open>
  The loop over the samples: the body at index \<open>ii\<close> keeps the shape of every tensor,
  leaves every other index alone, and what it writes at \<open>ii\<close> depends only on the
  entries at \<open>ii\<close>. So after the loop every index below \<open>batch_size\<close> holds what the
  body writes there from the store the loop started with, and the indices from
  \<open>batch_size\<close> on are untouched.
\<close>

lemma update_loss_coeffs_at_length:
  "length (update_loss_coeffs_at a labs cl lc ub lb ii h r) = length (h r)"
  by (simp add: update_loss_coeffs_at_def store_set_def Let_def)

lemma update_loss_coeffs_at_frame:
  "j \<noteq> ii \<Longrightarrow> update_loss_coeffs_at a labs cl lc ub lb ii h r ! j = h r ! j"
  by (simp add: update_loss_coeffs_at_def store_set_def Let_def)

lemma update_loss_coeffs_at_local:
  assumes "\<And>r. h1 r ! ii = h2 r ! ii" and "\<And>r. ii < length (h1 r)"
    and "\<And>r. ii < length (h2 r)"
  shows "update_loss_coeffs_at a labs cl lc ub lb ii h1 r ! ii
       = update_loss_coeffs_at a labs cl lc ub lb ii h2 r ! ii"
proof -
  have eq: "h1 r' ! ii = h2 r' ! ii" for r' by (rule assms(1))
  have l1: "ii < length (h1 r')" for r' by (rule assms(2))
  have l2: "ii < length (h2 r')" for r' by (rule assms(3))
  show ?thesis
    unfolding update_loss_coeffs_at_def store_set_def Let_def
    by (cases "is_successful_label a (cl ! ii) (labs ! ii)")
      (auto simp: eq l1 l2 nth_list_update)
qed

lemma update_loss_coeffs_fold:
  assumes "\<forall>r. n \<le> length (h r)"
  shows "(\<forall>r. length (update_loss_coeffs a labs cl n lc ub lb h r) = length (h r))
    \<and> (\<forall>r j. n \<le> j \<longrightarrow> update_loss_coeffs a labs cl n lc ub lb h r ! j = h r ! j)
    \<and> (\<forall>r i. i < n \<longrightarrow> update_loss_coeffs a labs cl n lc ub lb h r ! i
                        = update_loss_coeffs_at a labs cl lc ub lb i h r ! i)"
  using assms
proof (induction n)
  case 0
  show ?case by (simp add: update_loss_coeffs_def)
next
  case (Suc n)
  let ?H = "update_loss_coeffs a labs cl n lc ub lb h"
  have le: "\<forall>r. n \<le> length (h r)" using Suc.prems by (simp add: Suc_leD)
  note ih = Suc.IH[OF le]
  have step: "update_loss_coeffs a labs cl (Suc n) lc ub lb h
      = update_loss_coeffs_at a labs cl lc ub lb n ?H"
    by (simp add: update_loss_coeffs_def)
  have len: "length (?H r) = length (h r)" for r using ih by blast
  have untouched: "?H r ! n = h r ! n" for r using ih by blast
  have lt: "n < length (h r)" for r using Suc.prems by (simp add: Suc_le_eq)
  have 1: "length (update_loss_coeffs a labs cl (Suc n) lc ub lb h r) = length (h r)" for r
    by (simp add: step update_loss_coeffs_at_length len)
  have 2: "update_loss_coeffs a labs cl (Suc n) lc ub lb h r ! j = h r ! j"
    if "Suc n \<le> j" for r j
  proof -
    from that have "j \<noteq> n" "n \<le> j" by simp_all
    then show ?thesis using ih by (simp add: step update_loss_coeffs_at_frame)
  qed
  have 3: "update_loss_coeffs a labs cl (Suc n) lc ub lb h r ! i
                        = update_loss_coeffs_at a labs cl lc ub lb i h r ! i"
    if "i < Suc n" for r i
  proof (cases "i = n")
    case True
    have "update_loss_coeffs_at a labs cl lc ub lb n ?H r ! n
        = update_loss_coeffs_at a labs cl lc ub lb n h r ! n"
      by (rule update_loss_coeffs_at_local) (simp_all add: untouched len lt)
    then show ?thesis by (simp add: step True)
  next
    case False
    with that have "i < n" by simp
    then show ?thesis using ih False by (simp add: step update_loss_coeffs_at_frame)
  qed
  from 1 2 3 show ?case by blast
qed

text \<open>
  Claim C7: the per-sample coefficient update after an outer step, for
  \<open>_update_loss_coeffs\<close> as a whole. With \<open>h\<close> the three tensors before the call,
  \<open>h'\<close> after it, and \<open>ok\<close> the success of sample \<open>i\<close> in that step: on failure
  \<open>coeff_lower_bound[i]\<close> is raised to the maximum of itself and \<open>loss_coeffs[i]\<close>,
  and \<open>loss_coeffs[i]\<close> is multiplied by 10 when \<open>coeff_upper_bound[i]\<close> is not below
  \<open>UPPER_CHECK\<close>; on success \<open>coeff_upper_bound[i]\<close> is lowered to the minimum of
  itself and \<open>loss_coeffs[i]\<close>; whenever the upper bound is then below
  \<open>UPPER_CHECK\<close>, \<open>loss_coeffs[i]\<close> becomes the midpoint of the two bounds. This holds
  for every sample \<open>i < batch_size\<close>; the tensors keep their shape and the entries from
  \<open>batch_size\<close> on are not written. The statement covers both tensors that
  \<open>perturb\<close> passes as \<open>loss_coeffs\<close>; the conjunct on \<open>coeff_upper_bound\<close> is for
  the tensor of its own.
\<close>

theorem C7_update_loss_coeffs:
  fixes a labs cl lc batch_size h i
  assumes "lc \<noteq> CoeffLower" and "\<forall>r. batch_size \<le> length (h r)" and "i < batch_size"
  defines "h' \<equiv> update_loss_coeffs a labs cl batch_size lc CoeffUpper CoeffLower h"
  defines "ok \<equiv> is_successful_label a (cl ! i) (labs ! i)"
  defines "u1 \<equiv> min (h CoeffUpper ! i) (h lc ! i)"
  defines "l1 \<equiv> max (h CoeffLower ! i) (h lc ! i)"
  shows "(\<not> ok \<and> \<not> h CoeffUpper ! i < UPPER_CHECK \<longrightarrow> h' lc ! i = h lc ! i * 10)
    \<and> (\<not> ok \<and> h CoeffUpper ! i < UPPER_CHECK \<longrightarrow> h' lc ! i = (l1 + h CoeffUpper ! i) / 2)
    \<and> (ok \<and> u1 < UPPER_CHECK \<longrightarrow> h' lc ! i = (h CoeffLower ! i + u1) / 2)
    \<and> (ok \<and> \<not> u1 < UPPER_CHECK \<longrightarrow> h' lc ! i = h lc ! i)
    \<and> (ok \<longrightarrow> h' CoeffLower ! i = h CoeffLower ! i)
    \<and> (\<not> ok \<longrightarrow> h' CoeffLower ! i = l1)
    \<and> (lc = LossCoeffs \<longrightarrow> h' CoeffUpper ! i = (if ok then u1 else h CoeffUpper ! i))
    \<and> (\<forall>r. length (h' r) = length (h r))
    \<and> (\<forall>r j. batch_size \<le> j \<longrightarrow> h' r ! j = h r ! j)"
proof -
  note f = update_loss_coeffs_fold[OF assms(2), of a labs cl lc CoeffUpper CoeffLower]
  have at: "h' r ! i = update_loss_coeffs_at a labs cl lc CoeffUpper CoeffLower i h r ! i" for r
    using f assms(3) unfolding h'_def by blast
  have len: "i < length (h r)" for r
    using assms(2) assms(3) by (auto dest: spec[of _ r])
  note cases = update_loss_coeffs_at_cases[OF assms(1) len len len, of a cl labs]
  have frame: "(\<forall>r. length (h' r) = length (h r))
    \<and> (\<forall>r j. batch_size \<le> j \<longrightarrow> h' r ! j = h r ! j)"
    using f unfolding h'_def by blast
  show ?thesis
    using cases frame unfolding ok_def u1_def l1_def by (simp add: at)
qed

theorem C7_update_loss_coeffs_witness:
  "LossCoeffs \<noteq> CoeffLower \<and> (\<forall>r. 2 \<le> length (demo_store r))
   \<and> \<not> is_successful_label demo_attack ([- 1, 1] ! 0) ([0, 0] ! 0)
   \<and> \<not> demo_store CoeffUpper ! 0 < UPPER_CHECK
   \<and> update_loss_coeffs demo_attack [0, 0] [- 1, 1] 2 LossCoeffs CoeffUpper CoeffLower demo_store
        LossCoeffs ! 0 = 1
   \<and> update_loss_coeffs demo_attack [0, 0] [- 1, 1] 2 LossCoeffs CoeffUpper CoeffLower demo_store
        CoeffLower ! 0 = 1 / 10
   \<and> is_successful_label demo_attack ([- 1, 1] ! 1) ([0, 0] ! 1)
   \<and> update_loss_coeffs demo_attack [0, 0] [- 1, 1] 2 LossCoeffs CoeffUpper CoeffLower demo_store
        LossCoeffs ! 1 = 1 / 20
   \<and> update_loss_coeffs demo_attack [0, 0] [- 1, 1] 2 LossCoeffs CoeffUpper CoeffLower demo_store
        CoeffUpper ! 1 = 1 / 10"
proof -
  have len: "\<forall>r. 2 \<le> length (demo_store r)"
  proof
    fix r show "2 \<le> length (demo_store r)" by (cases r) (simp_all add: demo_store_def)
  qed
  have vals: "demo_store CoeffLower ! 0 = 0" "demo_store CoeffUpper ! 0 = 10 ^ 10"
    "demo_store LossCoeffs ! 0 = 1 / 10"
    "demo_store CoeffLower ! Suc 0 = 0" "demo_store CoeffUpper ! Suc 0 = 10 ^ 10"
    "demo_store LossCoeffs ! Suc 0 = 1 / 10"
    by (simp_all add: demo_store_def COEFF_UPPER_def)
  have ok: "\<not> is_successful_label demo_attack ([- 1, 1] ! 0) ([0, 0] ! 0)"
    "is_successful_label demo_attack ([- 1, 1] ! 1) ([0, 0] ! 1)"
    by (simp_all add: demo_attack_def is_successful_label_def is_successful_def
        INVALID_LABEL_def)
  have neq: "LossCoeffs \<noteq> CoeffLower" by simp
  have i0: "(0 :: nat) < 2" and i1: "(1 :: nat) < 2" by simp_all
  note failing = C7_update_loss_coeffs [where a = demo_attack and labs = "[0, 0]"
      and cl = "[- 1, 1]", OF neq len i0]
  note succeeding = C7_update_loss_coeffs [where a = demo_attack and labs = "[0, 0]"
      and cl = "[- 1, 1]", OF neq len i1]
  show ?thesis
    using failing succeeding ok len
    by (simp add: vals UPPER_CHECK_def)
qed

subsection \<open>The two losses\<close>

lemma row_max_Max: "r \<noteq> [] \<Longrightarrow> row_max r = Max (set r)"
  by (cases r) (simp_all add: row_max_def Max.set_eq_fold [symmetric])

lemma one_hot_row_length [simp]: "length (one_hot_row c l) = c"
  by (simp add: one_hot_row_def)

lemma one_hot_row_nth: "j < c \<Longrightarrow> one_hot_row c l ! j = (if int j = l then 1 else 0)"
  by (simp add: one_hot_row_def)

lemma real_score_one_hot:
  assumes "0 \<le> l" "l < int c" "length out = c"
  shows "real_score (one_hot_row c l) out = spec_real out l"
proof -
  have "map2 (*) (one_hot_row c l) out = map (\<lambda>j. if j = nat l then out ! j else 0) [0..<c]"
    using assms by (intro nth_equalityI) (auto simp: one_hot_row_nth)
  then have "real_score (one_hot_row c l) out = (\<Sum>j\<in>{0..<c}. if j = nat l then out ! j else 0)"
    by (simp add: real_score_def interv_sum_list_conv_sum_set_nat)
  also have "\<dots> = out ! nat l"
  proof -
    have "nat l < c" using assms by linarith
    then show ?thesis by (simp add: sum.delta')
  qed
  finally show ?thesis by (simp add: spec_real_def)
qed

lemma other_score_one_hot:
  assumes "0 \<le> l" "l < int c" "length out = c"
  shows "other_score (one_hot_row c l) out = spec_other out l"
proof -
  let ?m = "map2 (\<lambda>h v. (1 - h) * v - h * TARGET_MULT) (one_hot_row c l) out"
  have m: "?m = map (\<lambda>j. if int j = l then - TARGET_MULT else out ! j) [0..<c]"
    using assms by (intro nth_equalityI) (auto simp: one_hot_row_nth)
  have ne: "?m \<noteq> []" using assms unfolding m by auto
  have "set ?m = set (- TARGET_MULT # map (\<lambda>j. out ! j) (filter (\<lambda>j. int j \<noteq> l) [0..<length out]))"
  proof -
    have "nat l < c" "int (nat l) = l" using assms by linarith+
    then have "\<exists>j<c. int j = l" by blast
    then show ?thesis
      unfolding m using assms by (auto simp: image_iff)
  qed
  then have "Max (set ?m) = spec_other out l"
    by (simp only: spec_other_def)
  then show ?thesis
    using row_max_Max [OF ne] by (simp only: other_score_def)
qed

lemma loss1_row_one_hot:
  assumes "0 \<le> l" "l < int c" "length out = c"
  shows "loss1_row a (one_hot_row c l) out = spec_margin a out l"
  by (simp add: loss1_row_def spec_margin_def clamp_min_def
      real_score_one_hot[OF assms] other_score_one_hot[OF assms])

lemma loss1_batch:
  assumes "list_all (\<lambda>l. 0 \<le> l \<and> l < int c) y" "length output = length y"
    "list_all (\<lambda>row. length row = c) output" "length const = length y"
  shows "sum_list (map2 (*) const (map2 (loss1_row a) (map (one_hot_row c) y) output))
     = (\<Sum>i<length y. const ! i * spec_margin a (output ! i) (y ! i))"
proof -
  have "map2 (*) const (map2 (loss1_row a) (map (one_hot_row c) y) output)
      = map (\<lambda>i. const ! i * spec_margin a (output ! i) (y ! i)) [0..<length y]"
    using assms
    by (intro nth_equalityI) (auto simp: list_all_length loss1_row_one_hot)
  then show ?thesis
    by (simp add: interv_sum_list_conv_sum_set_nat atLeast0LessThan)
qed

lemma spec_other_best_remaining:
  assumes "j < length row" "int j \<noteq> l" "- TARGET_MULT \<le> row ! j"
  shows "spec_other row l = Max {row ! k | k. k < length row \<and> int k \<noteq> l}"
proof -
  let ?R = "{row ! k | k. k < length row \<and> int k \<noteq> l}"
  have fin: "finite ?R" by simp
  have ne: "?R \<noteq> {}" using assms by blast
  have "row ! j \<in> ?R" using assms by blast
  then have "row ! j \<le> Max ?R" using fin by (rule Max_ge[rotated])
  then have le: "- TARGET_MULT \<le> Max ?R" using assms(3) by linarith
  have "set (- TARGET_MULT # map (\<lambda>j. row ! j) (filter (\<lambda>j. int j \<noteq> l) [0..<length row]))
      = insert (- TARGET_MULT) ?R"
    by auto
  then have "spec_other row l = Max (insert (- TARGET_MULT) ?R)"
    by (simp only: spec_other_def)
  also have "\<dots> = max (- TARGET_MULT) (Max ?R)"
    using fin ne by (rule Max_insert)
  finally show ?thesis using le by simp
qed

text \<open>
  Claim C9: for labels inside the classes, one row of \<open>num_classes\<close> scores per sample
  and one coefficient per sample, the full loss is
  \<open>sum(coeff * margin) + sum(l2distsq) + beta * sum(l1dist)\<close> and the optimisation loss
  is the same without the \<open>beta * sum(l1dist)\<close> term, where the margin of a sample is
  \<open>clamp(other - real + confidence, min=0)\<close> for a targeted attack and
  \<open>clamp(real - other + confidence, min=0)\<close> otherwise, \<open>real\<close> is the score of the
  labelled class and \<open>other\<close> is the best score among the remaining classes, the
  labelled class being masked out by \<open>-TARGET_MULT\<close> (lemma
  \<open>spec_other_best_remaining\<close>: the masking value does not show as soon as one of the
  remaining scores is at least \<open>-TARGET_MULT\<close>).
\<close>

theorem C9_losses:
  assumes "to_one_hot y (num_classes a) = Inr y_onehot"
    and "0 < num_classes a"
    and "length output = length y" and "length const = length y"
    and "list_all (\<lambda>row. length row = num_classes a) output"
  shows "loss_fn a output y_onehot l1dist l2distsq const =
           Inr ((\<Sum>i<length y. const ! i * spec_margin a (output ! i) (y ! i))
                + sum_list l2distsq + beta a * sum_list l1dist)
       \<and> loss_opt_fn a output y_onehot l2distsq const =
           Inr ((\<Sum>i<length y. const ! i * spec_margin a (output ! i) (y ! i))
                + sum_list l2distsq)"
proof -
  from assms(1) have y: "list_all (\<lambda>l. 0 \<le> l \<and> l < int (num_classes a)) y"
    and oh: "y_onehot = map (one_hot_row (num_classes a)) y"
    by (auto simp: to_one_hot_def split: if_splits)
  show ?thesis
    using assms(2) loss1_batch[OF y assms(3) assms(5) assms(4)]
    by (simp add: loss_fn_def loss_opt_fn_def oh Let_def)
qed

theorem C9_losses_witness:
  "to_one_hot [0] (num_classes demo_attack) = Inr [[1, 0]]
   \<and> 0 < num_classes demo_attack
   \<and> list_all (\<lambda>row. length row = num_classes demo_attack) [[1 / 2, 3 / 10]]
   \<and> loss_fn demo_attack [[1 / 2, 3 / 10]] [[1, 0]] [2 / 10] [2 / 50] [1 / 10] = Inr (62 / 1000)
   \<and> loss_opt_fn demo_attack [[1 / 2, 3 / 10]] [[1, 0]] [2 / 50] [1 / 10] = Inr (6 / 100)"
proof -
  have oh: "to_one_hot [0] (num_classes demo_attack) = Inr [[1, 0]]"
    by (simp add: to_one_hot_def demo_attack_def one_hot_row_def upt_rec)
  have c: "0 < num_classes demo_attack" by (simp add: demo_attack_def)
  have rows: "list_all (\<lambda>row. length row = num_classes demo_attack) [[1 / 2, 3 / 10]]"
    by (simp add: demo_attack_def)
  have m: "spec_margin demo_attack [1 / 2, 3 / 10] 0 = 2 / 10"
    by (simp add: spec_margin_def spec_real_def spec_other_def demo_attack_def TARGET_MULT_def
        upt_rec)
  have b: "beta demo_attack = 1 / 100" by (simp add: demo_attack_def)
  show ?thesis
    using C9_losses [OF oh c _ _ rows, of "[1 / 10]" "[2 / 10]" "[2 / 50]"] oh c rows
    by (simp add: m b)
qed

subsection \<open>Tracking the best candidate along a run\<close>

lemma masked_set_length:
  "length msk = n \<Longrightarrow> length v = n \<Longrightarrow> length t = n \<Longrightarrow> length (masked_set msk v t) = n"
  by (simp add: masked_set_def)

lemma masked_set_nth:
  "i < length msk \<Longrightarrow> i < length v \<Longrightarrow> i < length t \<Longrightarrow>
   masked_set msk v t ! i = (if msk ! i then v ! i else t ! i)"
  by (simp add: masked_set_def)

lemma smaller_and_length:
  "length d = n \<Longrightarrow> length b = n \<Longrightarrow> length ok = n \<Longrightarrow> length (smaller_and d b ok) = n"
  by (simp add: smaller_and_def)

lemma smaller_and_nth:
  "i < length d \<Longrightarrow> i < length b \<Longrightarrow> i < length ok \<Longrightarrow>
   smaller_and d b ok ! i = (d ! i < b ! i \<and> ok ! i)"
  by (simp add: smaller_and_def)

lemma is_successful_logits_Inr:
  assumes "is_successful_logits a output labs = Inr succ"
    and "length output = n" and "length labs = n"
  shows "length succ = n" and "i < n \<Longrightarrow> succ ! i = row_successful a (output ! i) (labs ! i)"
  using assms by (auto simp: is_successful_logits_def split: if_splits)

lemma update_final:
  assumes u: "update_if_smaller_dist_succeed a adv_img labs output dist' s = Inr s'"
    and sh: "inner_shaped n s"
    and len: "length adv_img = n" "length labs = n" "length output = n" "length dist' = n"
  shows "inner_shaped n s'"
    and "history s' = history s"
    and "heap s' = heap s" and "loss_coeffs s' = loss_coeffs s"
    and "i < n \<Longrightarrow> final_of i s' = keep_best a (labs ! i) (sample_of i (adv_img, dist', output)) (final_of i s)"
    and "i < n \<Longrightarrow> (cur_dist s' ! i, cur_labels s' ! i) =
          (if dist' ! i < cur_dist s ! i \<and> row_successful a (output ! i) (labs ! i)
           then (dist' ! i, int (argmax (output ! i))) else (cur_dist s ! i, cur_labels s ! i))"
proof -
  from u obtain succ where succ: "is_successful_logits a output labs = Inr succ"
    by (cases "is_successful_logits a output labs")
      (auto simp: update_if_smaller_dist_succeed_def Let_def)
  note sl = is_successful_logits_Inr[OF succ len(3) len(2)]
  have s': "s' = s\<lparr> cur_dist := masked_set (smaller_and dist' (cur_dist s) succ) dist' (cur_dist s),
             cur_labels := masked_set (smaller_and dist' (cur_dist s) succ)
                 (map (\<lambda>row. int (argmax row)) output) (cur_labels s),
             final_dist := masked_set (smaller_and dist' (final_dist s) succ) dist' (final_dist s),
             final_labels := masked_set (smaller_and dist' (final_dist s) succ)
                 (map (\<lambda>row. int (argmax row)) output) (final_labels s),
             final_advs := masked_set (smaller_and dist' (final_dist s) succ) adv_img (final_advs s) \<rparr>"
    using u by (simp add: update_if_smaller_dist_succeed_def succ Let_def)
  show "inner_shaped n s'"
    using sh len sl(1)
    by (simp add: s' inner_shaped_def final_shaped_def masked_set_length smaller_and_length)
  show "history s' = history s" "heap s' = heap s" "loss_coeffs s' = loss_coeffs s"
    by (simp_all add: s')
  show "final_of i s' = keep_best a (labs ! i) (sample_of i (adv_img, dist', output)) (final_of i s)"
    if "i < n"
    using that sh len sl
    by (simp add: s' final_of_def keep_best_def sample_of_def inner_shaped_def final_shaped_def
        masked_set_nth smaller_and_nth smaller_and_length)
  show "(cur_dist s' ! i, cur_labels s' ! i) =
          (if dist' ! i < cur_dist s ! i \<and> row_successful a (output ! i) (labs ! i)
           then (dist' ! i, int (argmax (output ! i))) else (cur_dist s ! i, cur_labels s ! i))"
    if "i < n"
    using that sh len sl
    by (simp add: s' inner_shaped_def final_shaped_def
        masked_set_nth smaller_and_nth smaller_and_length)
qed


lemma train_Inr:
  assumes "train e a x y_onehot s = Inr s1"
  shows "s1 = s\<lparr> slack := sgd_step (lr s) (slack s)
                    (backward e x (slack s) y_onehot (heap s (loss_coeffs s))),
                 global_step := global_step s + 1 \<rparr>"
  using assms by (auto simp: train_def Let_def split: sum.splits)

lemma sgd_step_length:
  "length grad = length sl \<Longrightarrow> length (sgd_step rate sl grad) = length sl"
  by (simp add: sgd_step_def)

lemma fista_length:
  assumes "length sl = length x" "length ni = length x"
  shows "length (fst (fast_iterative_shrinkage_thresholding a step x sl ni)) = length x"
    and "length (snd (fast_iterative_shrinkage_thresholding a step x sl ni)) = length x"
  using assms by (simp_all add: fast_iterative_shrinkage_thresholding_def Let_def)

lemma crit_of_length:
  assumes "crit_of a (l2distsq_rows adv x) (l1dist_rows adv x) = Some d" "length adv = length x"
  shows "length d = length x"
  using assms by (auto simp: crit_of_def l2distsq_rows_def l1dist_rows_def split: if_splits)

lemma run_Inr:
  assumes "run e a x adv y_onehot coeffs = Inr (loss, d, output)"
  shows "output = predict_batch e a adv"
    and "crit_of a (l2distsq_rows adv x) (l1dist_rows adv x) = Some d"
  using assms
  by (auto simp: run_def calc_l2distsq_def calc_l1dist_def Let_def
      split: sum.splits option.splits if_splits)

lemma predict_batch_length: "length (predict_batch e a xs) = length xs"
  by (simp add: predict_batch_def)

lemma keep_best_cur:
  "\<exists>img'. keep_best a l c (d, lab, img) =
     ((if fst c < d \<and> row_successful a (snd (snd c)) l then fst c else d),
      (if fst c < d \<and> row_successful a (snd (snd c)) l then int (argmax (snd (snd c))) else lab),
      img')"
  by (cases c) (simp add: keep_best_def)

lemma inner_body_tracks:
  assumes b: "inner_body e a x y y_onehot ii s = Inr (stop, s')"
    and sh: "inner_shaped (length x) s"
    and ly: "length y = length x"
    and grad: "\<And>x' sl yo c. length (backward e x' sl yo c) = length sl"
  shows "\<exists>new. tracked e a x y new s s' \<and> cur_tracked a x y new s s'
    \<and> inner_shaped (length x) s' \<and> heap s' = heap s \<and> loss_coeffs s' = loss_coeffs s"
proof -
  from b obtain s1 where t: "train e a x y_onehot s = Inr s1"
    by (cases "train e a x y_onehot s") (auto simp: inner_body_def)
  define s2 where "s2 = s1\<lparr> lr := polynomial_decay e (learning_rate a) (global_step s1)
                                 (max_iterations a) \<rparr>"
  define r where "r = fast_iterative_shrinkage_thresholding a (global_step s2) x
                     (slack s2) (newimg s2)"
  define s3 where "s3 = s2\<lparr> slack := fst r, newimg := snd r \<rparr>"
  note s1 = train_Inr[OF t]
  have l1: "length (slack s2) = length x" "length (newimg s2) = length x"
    using sh grad by (simp_all add: s2_def s1 inner_shaped_def sgd_step_length)
  have lr: "length (fst r) = length x" "length (snd r) = length x"
    unfolding r_def using fista_length[OF l1] by simp_all
  have sh3: "inner_shaped (length x) s3"
    using sh lr by (simp add: s3_def s2_def s1 inner_shaped_def final_shaped_def)
  have same3: "history s3 = history s" "heap s3 = heap s" "loss_coeffs s3 = loss_coeffs s"
    "final_of i s3 = final_of i s" "cur_dist s3 = cur_dist s" "cur_labels s3 = cur_labels s" for i
    by (simp_all add: s3_def s2_def s1 final_of_def)
  from b t obtain loss d out where
    ru: "run e a x (newimg s3) y_onehot (heap s3 (loss_coeffs s3)) = Inr (loss, d, out)"
    by (cases "run e a x (newimg s3) y_onehot (heap s3 (loss_coeffs s3))")
      (auto simp: inner_body_def Let_def s2_def s3_def r_def)
  define chk where "chk = (abort_early a \<and> ii mod check_every a = 0)"
  show ?thesis
  proof (cases "chk \<and> loss > prevloss s3 * ONE_MINUS_EPS")
    case True
    then have "s' = s3"
      using b t ru
      by (simp add: inner_body_def Let_def s2_def r_def s3_def chk_def)
    then show ?thesis
      using sh3 same3
      by (intro exI[of _ "[]"]) (simp add: replay_def tracked_def cur_tracked_def inner_shaped_def)
  next
    case False
    define s4 where "s4 = (if chk then s3\<lparr> prevloss := loss \<rparr> else s3)"
    define s5 where "s5 = s4\<lparr> history := (newimg s3, d, out) # history s4 \<rparr>"
    have u: "update_if_smaller_dist_succeed a (newimg s3) y out d s5 = Inr s'"
      using b t ru False
      by (cases "update_if_smaller_dist_succeed a (newimg s3) y out d s5")
        (auto simp: inner_body_def Let_def s2_def r_def s3_def chk_def s4_def s5_def
          split: if_splits)
    have sh5: "inner_shaped (length x) s5"
      using sh3 by (simp add: s5_def s4_def inner_shaped_def final_shaped_def)
    have same5: "history s5 = (newimg s3, d, out) # history s" "heap s5 = heap s"
      "loss_coeffs s5 = loss_coeffs s"
      "final_of i s5 = final_of i s" "cur_dist s5 = cur_dist s" "cur_labels s5 = cur_labels s" for i
      using same3 by (simp_all add: s5_def s4_def final_of_def)
    have ladv: "length (newimg s3) = length x" using lr by (simp add: s3_def)
    note ro = run_Inr[OF ru]
    have lout: "length out = length x" using ro(1) ladv by (simp add: predict_batch_length)
    have ld: "length d = length x" using crit_of_length[OF ro(2) ladv] .
    note up = update_final[OF u sh5 ladv ly lout ld]
    have cand: "candidate_call e a x (newimg s3, d, out)"
      using ladv ld ro by (auto simp: candidate_call_def s3_def r_def)
    have fin: "final_of i s' = replay a (y ! i) i [(newimg s3, d, out)] (final_of i s)"
      if "i < length x" for i
      using up(5)[OF that] same5 by (simp add: replay_def)
    have cur: "\<exists>img'. replay a (y ! i) i [(newimg s3, d, out)] (cur_dist s ! i, cur_labels s ! i, img)
            = (cur_dist s' ! i, cur_labels s' ! i, img')"
      if "i < length x" for i img
      using up(6)[OF that] same5
        keep_best_cur[of a "y ! i" "sample_of i (newimg s3, d, out)" "cur_dist s ! i" "cur_labels s ! i" img]
      by (auto simp: replay_def sample_of_def split: if_splits)
    show ?thesis
      using up(1-4) same5 cand fin cur
      by (intro exI[of _ "[(newimg s3, d, out)]"])
        (simp add: tracked_def cur_tracked_def inner_shaped_def)
  qed
qed


lemma replay_append: "replay a l i (new2 @ new1) b = replay a l i new2 (replay a l i new1 b)"
  by (simp add: replay_def)

lemma tracked_trans:
  assumes "tracked e a x y new1 s s1" "tracked e a x y new2 s1 s2"
  shows "tracked e a x y (new2 @ new1) s s2"
  using assms by (simp add: tracked_def replay_append)

lemma cur_tracked_trans:
  assumes "cur_tracked a x y new1 s s1" "cur_tracked a x y new2 s1 s2"
  shows "cur_tracked a x y (new2 @ new1) s s2"
  unfolding cur_tracked_def
proof (intro allI impI)
  fix i img assume i: "i < length x"
  from assms(1) i obtain img1 where
    1: "replay a (y ! i) i new1 (cur_dist s ! i, cur_labels s ! i, img)
          = (cur_dist s1 ! i, cur_labels s1 ! i, img1)"
    unfolding cur_tracked_def by blast
  from assms(2) i obtain img2 where
    2: "replay a (y ! i) i new2 (cur_dist s1 ! i, cur_labels s1 ! i, img1)
          = (cur_dist s2 ! i, cur_labels s2 ! i, img2)"
    unfolding cur_tracked_def by blast
  show "\<exists>img'. replay a (y ! i) i (new2 @ new1) (cur_dist s ! i, cur_labels s ! i, img)
          = (cur_dist s2 ! i, cur_labels s2 ! i, img')"
    using 1 2 by (simp add: replay_append)
qed

lemma inner_loop_tracks:
  assumes "inner_loop e a x y y_onehot iis s = Inr s'"
    and "inner_shaped (length x) s"
    and ly: "length y = length x"
    and grad: "\<And>x' sl yo c. length (backward e x' sl yo c) = length sl"
  shows "\<exists>new. tracked e a x y new s s' \<and> cur_tracked a x y new s s'
    \<and> inner_shaped (length x) s' \<and> heap s' = heap s \<and> loss_coeffs s' = loss_coeffs s"
  using assms(1,2)
proof (induction iis arbitrary: s)
  case Nil
  then have "s' = s" by simp
  then show ?case
    using Nil.prems(2)
    by (intro exI[of _ "[]"])
      (simp add: tracked_def cur_tracked_def replay_def inner_shaped_def)
next
  case (Cons ii iis)
  from Cons.prems(1) obtain stop s1 where
    b: "inner_body e a x y y_onehot ii s = Inr (stop, s1)"
    by (cases "inner_body e a x y y_onehot ii s") auto
  from inner_body_tracks[OF b Cons.prems(2) ly grad] obtain new1 where
    1: "tracked e a x y new1 s s1" "cur_tracked a x y new1 s s1"
      "inner_shaped (length x) s1" "heap s1 = heap s" "loss_coeffs s1 = loss_coeffs s"
    by blast
  show ?case
  proof (cases stop)
    case True
    then have "s' = s1" using Cons.prems(1) b by simp
    then show ?thesis using 1 by blast
  next
    case False
    then have "inner_loop e a x y y_onehot iis s1 = Inr s'" using Cons.prems(1) b by simp
    from Cons.IH[OF this 1(3)] obtain new2 where
      2: "tracked e a x y new2 s1 s'" "cur_tracked a x y new2 s1 s'"
        "inner_shaped (length x) s'" "heap s' = heap s1" "loss_coeffs s' = loss_coeffs s1"
      by blast
    show ?thesis
      using tracked_trans[OF 1(1) 2(1)] cur_tracked_trans[OF 1(2) 2(2)] 1 2
      by (intro exI[of _ "new2 @ new1"]) simp
  qed
qed


lemma outer_body_tracks:
  assumes ob: "outer_body e a x y y_onehot k s = Inr s'"
    and sh: "final_shaped (length x) s"
    and ly: "length y = length x"
    and grad: "\<And>x' sl yo c. length (backward e x' sl yo c) = length sl"
  shows "\<exists>new. tracked e a x y new s s'
    \<and> (\<forall>i<length x. \<forall>img. \<exists>img'.
          replay a (y ! i) i new (DIST_UPPER, INVALID_LABEL, img)
            = (cur_dist s' ! i, cur_labels s' ! i, img'))
    \<and> loss_coeffs s' =
          (if repeat a \<and> int k = int (binary_search_steps a) - 1 then CoeffUpper
           else loss_coeffs s)
    \<and> heap s' = update_loss_coeffs a y (cur_labels s') (length x) (loss_coeffs s')
                   CoeffUpper CoeffLower (heap s)"
proof -
  define s1 where "s1 = s\<lparr> global_step := 0, slack := x, newimg := x, lr := learning_rate a,
                  cur_dist := replicate (length x) DIST_UPPER,
                  cur_labels := replicate (length x) INVALID_LABEL,
                  prevloss := PREV_LOSS_INIT \<rparr>"
  define s2 where "s2 = (if repeat a \<and> int k = int (binary_search_steps a) - 1
                then s1\<lparr> loss_coeffs := CoeffUpper \<rparr> else s1)"
  have ob': "outer_body e a x y y_onehot k s =
      (case inner_loop e a x y y_onehot [0..<max_iterations a] s2 of
         Inl err \<Rightarrow> Inl err
       | Inr s3 \<Rightarrow> Inr (s3\<lparr> heap := update_loss_coeffs a y (cur_labels s3) (length x)
                                 (loss_coeffs s3) CoeffUpper CoeffLower (heap s3) \<rparr>))"
    by (simp add: outer_body_def Let_def s1_def s2_def)
  from ob obtain s3 where il: "inner_loop e a x y y_onehot [0..<max_iterations a] s2 = Inr s3"
    unfolding ob' by (cases "inner_loop e a x y y_onehot [0..<max_iterations a] s2") auto
  have s': "s' = s3\<lparr> heap := update_loss_coeffs a y (cur_labels s3) (length x)
                                 (loss_coeffs s3) CoeffUpper CoeffLower (heap s3) \<rparr>"
    using ob il unfolding ob' by simp
  have sh2: "inner_shaped (length x) s2"
    using sh by (simp add: s2_def s1_def inner_shaped_def final_shaped_def)
  have same2: "history s2 = history s" "heap s2 = heap s" "final_of i s2 = final_of i s"
    "cur_dist s2 = replicate (length x) DIST_UPPER"
    "cur_labels s2 = replicate (length x) INVALID_LABEL"
    "loss_coeffs s2 = (if repeat a \<and> int k = int (binary_search_steps a) - 1 then CoeffUpper
           else loss_coeffs s)" for i
    by (simp_all add: s2_def s1_def final_of_def)
  from inner_loop_tracks[OF il sh2 ly grad] obtain new where
    n: "tracked e a x y new s2 s3" "cur_tracked a x y new s2 s3"
      "inner_shaped (length x) s3" "heap s3 = heap s2" "loss_coeffs s3 = loss_coeffs s2"
    by blast
  have 1: "tracked e a x y new s s'"
    using n(1) same2 by (simp add: tracked_def s' final_of_def final_shaped_def)
  have 2: "\<forall>i<length x. \<forall>img. \<exists>img'.
          replay a (y ! i) i new (DIST_UPPER, INVALID_LABEL, img)
            = (cur_dist s' ! i, cur_labels s' ! i, img')"
    using n(2) same2 by (simp add: cur_tracked_def s')
  show ?thesis
    using 1 2 n(4,5) same2 by (intro exI[of _ new]) (simp add: s')
qed

lemma outer_loop_tracks:
  assumes "outer_loop e a x y y_onehot steps s = Inr s'"
    and "final_shaped (length x) s"
    and ly: "length y = length x"
    and grad: "\<And>x' sl yo c. length (backward e x' sl yo c) = length sl"
  shows "\<exists>new. tracked e a x y new s s'"
  using assms(1,2)
proof (induction steps arbitrary: s)
  case Nil
  then show ?case by (intro exI[of _ "[]"]) (simp add: tracked_def replay_def)
next
  case (Cons k steps)
  from Cons.prems(1) obtain s1 where
    b: "outer_body e a x y y_onehot k s = Inr s1"
    and r: "outer_loop e a x y y_onehot steps s1 = Inr s'"
    by (cases "outer_body e a x y y_onehot k s") auto
  from outer_body_tracks[OF b Cons.prems(2) ly grad] obtain new1 where
    1: "tracked e a x y new1 s s1" by blast
  then have "final_shaped (length x) s1" by (simp add: tracked_def)
  from Cons.IH[OF r this] obtain new2 where 2: "tracked e a x y new2 s1 s'" by blast
  show ?case using tracked_trans[OF 1 2] by blast
qed

lemma perturb_state_tracks:
  assumes p: "perturb_state e a x y = Inr s"
    and ly: "length y = length x"
    and grad: "\<And>x' sl yo c. length (backward e x' sl yo c) = length sl"
  shows "list_all (candidate_call e a x) (history s)"
    and "final_shaped (length x) s"
    and "i < length x \<Longrightarrow>
           final_of i s = replay a (y ! i) i (history s) (DIST_UPPER, INVALID_LABEL, x ! i)"
proof -
  from p obtain yo where
    ol: "outer_loop e a x y yo [0..<binary_search_steps a] (init_state a x y) = Inr s"
    by (cases "to_one_hot y (num_classes a)") (auto simp: perturb_state_def)
  have sh: "final_shaped (length x) (init_state a x y)"
    by (simp add: final_shaped_def init_state_def)
  from outer_loop_tracks[OF ol sh ly grad] obtain new where
    t: "tracked e a x y new (init_state a x y) s" by blast
  have h: "history s = new" using t by (simp add: tracked_def init_state_def)
  show "list_all (candidate_call e a x) (history s)" "final_shaped (length x) s"
    using t h by (simp_all add: tracked_def)
  show "final_of i s = replay a (y ! i) i (history s) (DIST_UPPER, INVALID_LABEL, x ! i)"
    if "i < length x"
    using t h that by (simp add: tracked_def init_state_def final_of_def)
qed

lemma replay_Nil: "replay a l i [] b = b"
  by (simp add: replay_def)

lemma replay_Cons: "replay a l i (c # cs) b = keep_best a l (sample_of i c) (replay a l i cs b)"
  by (simp add: replay_def)

lemma keep_best_le: "fst (keep_best a l c b) \<le> fst b"
  by (cases c) (simp add: keep_best_def)

lemma replay_le: "fst (replay a l i new b) \<le> fst b"
proof (induction new)
  case Nil
  show ?case by (simp add: replay_Nil)
next
  case (Cons c cs)
  have "fst (keep_best a l (sample_of i c) (replay a l i cs b)) \<le> fst (replay a l i cs b)"
    by (rule keep_best_le)
  with Cons show ?case by (simp add: replay_Cons)
qed

lemma replay_achieved:
  "replay a l i new b = b
   \<or> (\<exists>c\<in>set new. replay a l i new b
          = (fst (sample_of i c), int (argmax (snd (snd (sample_of i c)))), fst (snd (sample_of i c)))
        \<and> row_successful a (snd (snd (sample_of i c))) l
        \<and> fst (sample_of i c) < fst b)"
proof (induction new)
  case Nil
  show ?case by (simp add: replay_Nil)
next
  case (Cons c cs)
  let ?r = "replay a l i cs b"
  obtain d img row where c: "sample_of i c = (d, img, row)" by (cases "sample_of i c")
  show ?case
  proof (cases "d < fst ?r \<and> row_successful a row l")
    case True
    have "fst ?r \<le> fst b" by (rule replay_le)
    with True show ?thesis by (auto simp: replay_Cons c keep_best_def)
  next
    case False
    then have "replay a l i (c # cs) b = ?r" by (auto simp: replay_Cons c keep_best_def)
    with Cons show ?thesis by auto
  qed
qed

lemma replay_no_success:
  assumes "\<forall>c\<in>set new. \<not> row_successful a (snd (snd (sample_of i c))) l"
  shows "replay a l i new b = b"
  using assms
proof (induction new)
  case Nil
  show ?case by (simp add: replay_Nil)
next
  case (Cons c cs)
  then show ?case by (cases "sample_of i c") (simp add: replay_Cons keep_best_def)
qed

lemma train_total:
  assumes "0 < num_classes a" and "slack s \<noteq> []" and "x \<noteq> []"
  shows "\<exists>s1. train e a x y_onehot s = Inr s1"
  using assms by (simp add: train_def calc_l2distsq_def loss_opt_fn_def Let_def)

lemma run_total:
  assumes "0 < num_classes a" and "decision_rule a = ''EN'' \<or> decision_rule a = ''L1''"
    and "adv \<noteq> []" and "x \<noteq> []"
  shows "\<exists>loss d out. run e a x adv y_onehot coeffs = Inr (loss, d, out)"
  using assms
  by (auto simp: run_def calc_l2distsq_def calc_l1dist_def loss_fn_def crit_of_def Let_def)

lemma labels_index_predict:
  assumes "list_all (\<lambda>l. 0 \<le> l \<and> l < int (num_classes a)) y"
  shows "labels_index (predict_batch e a adv) y"
  unfolding labels_index_def list_all_iff
proof (intro ballI)
  fix p assume "p \<in> set (zip (predict_batch e a adv) y)"
  moreover obtain row l where pl: "p = (row, l)" by (cases p)
  ultimately have p: "p = (row, l)" "row \<in> set (predict_batch e a adv)" "l \<in> set y"
    by (auto dest: set_zip_leftD set_zip_rightD)
  then have "length row = num_classes a" by (auto simp: predict_batch_def)
  moreover have "0 \<le> l \<and> l < int (num_classes a)"
    using assms p(3) by (simp add: list_all_iff)
  ultimately show "case p of (row, l) \<Rightarrow> py_index (length row) l \<noteq> None"
    by (simp add: p py_index_def)
qed

lemma update_total:
  assumes "labels_index out labs"
  shows "\<exists>s'. update_if_smaller_dist_succeed a adv labs out d s = Inr s'"
  using assms by (simp add: update_if_smaller_dist_succeed_def is_successful_logits_def Let_def)

lemma inner_body_total:
  assumes c: "0 < num_classes a"
    and r: "decision_rule a = ''EN'' \<or> decision_rule a = ''L1''"
    and y: "list_all (\<lambda>l. 0 \<le> l \<and> l < int (num_classes a)) y"
    and sh: "inner_shaped (length x) s"
    and ne: "x \<noteq> []"
    and grad: "\<And>x' sl yo c. length (backward e x' sl yo c) = length sl"
  shows "\<exists>stop s'. inner_body e a x y y_onehot ii s = Inr (stop, s')"
proof -
  have "slack s \<noteq> []" using sh ne by (auto simp: inner_shaped_def)
  from train_total[OF c this ne] obtain s1 where t: "train e a x y_onehot s = Inr s1" by blast
  define s2 where "s2 = s1\<lparr> lr := polynomial_decay e (learning_rate a) (global_step s1)
                                 (max_iterations a) \<rparr>"
  define r' where "r' = fast_iterative_shrinkage_thresholding a (global_step s2) x
                     (slack s2) (newimg s2)"
  define s3 where "s3 = s2\<lparr> slack := fst r', newimg := snd r' \<rparr>"
  note s1 = train_Inr[OF t]
  have l1: "length (slack s2) = length x" "length (newimg s2) = length x"
    using sh grad by (simp_all add: s2_def s1 inner_shaped_def sgd_step_length)
  have "length (newimg s3) = length x"
    using fista_length(2)[OF l1] by (simp add: s3_def r'_def)
  then have "newimg s3 \<noteq> []" using ne by auto
  from run_total[OF c r this ne] obtain loss d out where
    ru: "run e a x (newimg s3) y_onehot (heap s3 (loss_coeffs s3)) = Inr (loss, d, out)"
    by blast
  have out: "out = predict_batch e a (newimg s3)" using run_Inr(1)[OF ru] .
  define chk where "chk = (abort_early a \<and> ii mod check_every a = 0)"
  define s4 where "s4 = (if chk then s3\<lparr> prevloss := loss \<rparr> else s3)"
  define s5 where "s5 = s4\<lparr> history := (newimg s3, d, out) # history s4 \<rparr>"
  from update_total[OF labels_index_predict[OF y]] obtain s6 where
    u: "update_if_smaller_dist_succeed a (newimg s3) y out d s5 = Inr s6"
    unfolding out by blast
  have "inner_body e a x y y_onehot ii s =
      (if chk \<and> loss > prevloss s3 * ONE_MINUS_EPS then Inr (True, s3) else Inr (False, s6))"
    using t ru u
    unfolding inner_body_def Let_def s2_def r'_def s3_def chk_def s4_def s5_def
    by (simp cong: if_cong)
  then show ?thesis by (cases "chk \<and> loss > prevloss s3 * ONE_MINUS_EPS") auto
qed

lemma inner_loop_total:
  assumes c: "0 < num_classes a"
    and r: "decision_rule a = ''EN'' \<or> decision_rule a = ''L1''"
    and y: "list_all (\<lambda>l. 0 \<le> l \<and> l < int (num_classes a)) y"
    and ne: "x \<noteq> []"
    and ly: "length y = length x"
    and grad: "\<And>x' sl yo c. length (backward e x' sl yo c) = length sl"
  shows "inner_shaped (length x) s \<Longrightarrow> \<exists>s'. inner_loop e a x y y_onehot iis s = Inr s'"
proof (induction iis arbitrary: s)
  case Nil
  show ?case by simp
next
  case (Cons ii iis)
  from inner_body_total[OF c r y Cons.prems ne grad] obtain stop s1 where
    b: "inner_body e a x y y_onehot ii s = Inr (stop, s1)" by blast
  from inner_body_tracks[OF b Cons.prems ly grad] have "inner_shaped (length x) s1" by blast
  from Cons.IH[OF this] obtain s2 where "inner_loop e a x y y_onehot iis s1 = Inr s2" by blast
  with b show ?case by (cases stop) simp_all
qed

lemma outer_body_total:
  assumes c: "0 < num_classes a"
    and r: "decision_rule a = ''EN'' \<or> decision_rule a = ''L1''"
    and y: "list_all (\<lambda>l. 0 \<le> l \<and> l < int (num_classes a)) y"
    and ne: "x \<noteq> []"
    and ly: "length y = length x"
    and grad: "\<And>x' sl yo c. length (backward e x' sl yo c) = length sl"
    and sh: "final_shaped (length x) s"
  shows "\<exists>s'. outer_body e a x y y_onehot k s = Inr s'"
proof -
  define s1 where "s1 = s\<lparr> global_step := 0, slack := x, newimg := x, lr := learning_rate a,
                  cur_dist := replicate (length x) DIST_UPPER,
                  cur_labels := replicate (length x) INVALID_LABEL,
                  prevloss := PREV_LOSS_INIT \<rparr>"
  define s2 where "s2 = (if repeat a \<and> int k = int (binary_search_steps a) - 1
                then s1\<lparr> loss_coeffs := CoeffUpper \<rparr> else s1)"
  have "inner_shaped (length x) s2"
    using sh by (simp add: s2_def s1_def inner_shaped_def final_shaped_def)
  from inner_loop_total[OF c r y ne ly grad this] obtain s3 where
    "inner_loop e a x y y_onehot [0..<max_iterations a] s2 = Inr s3" by blast
  moreover have "outer_body e a x y y_onehot k s =
      (case inner_loop e a x y y_onehot [0..<max_iterations a] s2 of
         Inl err \<Rightarrow> Inl err
       | Inr s3 \<Rightarrow> Inr (s3\<lparr> heap := update_loss_coeffs a y (cur_labels s3) (length x)
                                 (loss_coeffs s3) CoeffUpper CoeffLower (heap s3) \<rparr>))"
    by (simp add: outer_body_def Let_def s1_def s2_def)
  ultimately show ?thesis by simp
qed

lemma outer_loop_total:
  assumes c: "0 < num_classes a"
    and r: "decision_rule a = ''EN'' \<or> decision_rule a = ''L1''"
    and y: "list_all (\<lambda>l. 0 \<le> l \<and> l < int (num_classes a)) y"
    and ne: "x \<noteq> []"
    and ly: "length y = length x"
    and grad: "\<And>x' sl yo c. length (backward e x' sl yo c) = length sl"
  shows "final_shaped (length x) s \<Longrightarrow> \<exists>s'. outer_loop e a x y y_onehot steps s = Inr s'"
proof (induction steps arbitrary: s)
  case Nil
  show ?case by simp
next
  case (Cons k steps)
  from outer_body_total[OF c r y ne ly grad Cons.prems] obtain s1 where
    b: "outer_body e a x y y_onehot k s = Inr s1" by blast
  from outer_body_tracks[OF b Cons.prems ly grad] have "final_shaped (length x) s1"
    by (auto simp: tracked_def)
  from Cons.IH[OF this] obtain s2 where "outer_loop e a x y y_onehot steps s1 = Inr s2" by blast
  with b show ?case by simp
qed

lemma perturb_state_total:
  assumes c: "0 < num_classes a"
    and r: "decision_rule a = ''EN'' \<or> decision_rule a = ''L1''"
    and y: "list_all (\<lambda>l. 0 \<le> l \<and> l < int (num_classes a)) y"
    and ne: "x \<noteq> []"
    and ly: "length y = length x"
    and grad: "\<And>x' sl yo c. length (backward e x' sl yo c) = length sl"
  shows "\<exists>s. perturb_state e a x y = Inr s"
proof -
  have "final_shaped (length x) (init_state a x y)"
    by (simp add: final_shaped_def init_state_def)
  from outer_loop_total[OF c r y ne ly grad this]
  show ?thesis using y by (simp add: perturb_state_def to_one_hot_def)
qed

subsection \<open>Claims about the best candidate\<close>

lemma tracked_improved:
  assumes t: "tracked e a x y new s s'" and i: "i < length x"
  shows "improved a x i new s s'"
proof -
  let ?b = "final_of i s"
  have f: "final_of i s' = replay a (y ! i) i new ?b"
    using t i by (simp add: tracked_def)
  have le: "final_dist s' ! i \<le> final_dist s ! i"
  proof -
    have "fst (final_of i s') \<le> fst (final_of i s)"
      using replay_le[of a "y ! i" i new ?b] f by simp
    then show ?thesis by (simp add: final_of_def)
  qed
  from replay_achieved[of a "y ! i" i new ?b]
  show ?thesis
  proof
    assume "replay a (y ! i) i new ?b = ?b"
    then show ?thesis using le f by (simp add: improved_def)
  next
    assume "\<exists>c\<in>set new. replay a (y ! i) i new ?b
          = (fst (sample_of i c), int (argmax (snd (snd (sample_of i c)))), fst (snd (sample_of i c)))
        \<and> row_successful a (snd (snd (sample_of i c))) (y ! i)
        \<and> fst (sample_of i c) < fst ?b"
    then obtain c where c: "c \<in> set new"
      and r: "final_of i s' = (fst (sample_of i c), int (argmax (snd (snd (sample_of i c)))),
                fst (snd (sample_of i c)))"
      and lt: "fst (sample_of i c) < fst ?b"
      using f by auto
    obtain adv d out where cc: "c = (adv, d, out)" by (cases c)
    have "candidate_call e a x c" using t c by (simp add: tracked_def list_all_iff)
    then have cr: "crit_of a (l2distsq_rows adv x) (l1dist_rows adv x) = Some d"
      by (simp add: candidate_call_def cc)
    have "final_advs s' ! i = adv ! i \<and> final_dist s' ! i = d ! i \<and> d ! i < final_dist s ! i"
      using r lt by (simp add: final_of_def sample_of_def cc)
    then show ?thesis
      using le c cr unfolding improved_def list_ex_iff cc by blast
  qed
qed

text \<open>
  Claim C1: \<open>final_dist[i]\<close> never grows, and whenever it changes, \<open>final_advs[i]\<close>
  is the candidate whose criterion is the new \<open>final_dist[i]\<close>. The statement is made
  for one call of \<open>_update_if_smaller_dist_succeed\<close>, for any stretch of the inner
  loop, for any stretch of the outer loop, and for the whole run from the initial state.
\<close>

theorem C1_final_dist_monotone:
  assumes ly: "length y = length x"
    and grad: "\<And>x' sl yo c. length (backward e x' sl yo c) = length sl"
  shows "(update_if_smaller_dist_succeed a adv labs out d s0 = Inr s1 \<and> inner_shaped n s0
          \<and> length adv = n \<and> length labs = n \<and> length out = n \<and> length d = n \<and> j < n
          \<longrightarrow> final_dist s1 ! j \<le> final_dist s0 ! j
              \<and> (final_dist s1 ! j \<noteq> final_dist s0 ! j
                   \<longrightarrow> final_dist s1 ! j = d ! j \<and> final_advs s1 ! j = adv ! j))
    \<and> (inner_loop e a x y y_onehot iis s2 = Inr s3 \<and> inner_shaped (length x) s2 \<and> i < length x
          \<longrightarrow> (\<exists>new. history s3 = new @ history s2 \<and> improved a x i new s2 s3))
    \<and> (outer_loop e a x y y_onehot steps s4 = Inr s5 \<and> final_shaped (length x) s4 \<and> i < length x
          \<longrightarrow> (\<exists>new. history s5 = new @ history s4 \<and> improved a x i new s4 s5))
    \<and> (perturb_state e a x y = Inr s \<and> i < length x
          \<longrightarrow> improved a x i (history s) (init_state a x y) s)"
proof -
  have 1: "final_dist s1 ! j \<le> final_dist s0 ! j
              \<and> (final_dist s1 ! j \<noteq> final_dist s0 ! j
                   \<longrightarrow> final_dist s1 ! j = d ! j \<and> final_advs s1 ! j = adv ! j)"
    if h: "update_if_smaller_dist_succeed a adv labs out d s0 = Inr s1 \<and> inner_shaped n s0
          \<and> length adv = n \<and> length labs = n \<and> length out = n \<and> length d = n \<and> j < n"
  proof -
    from h have u: "update_if_smaller_dist_succeed a adv labs out d s0 = Inr s1"
      and sh: "inner_shaped n s0" and len: "length adv = n" "length labs = n" "length out = n"
        "length d = n" and j: "j < n"
      by simp_all
    have "final_of j s1 = keep_best a (labs ! j) (sample_of j (adv, d, out)) (final_of j s0)"
      using update_final(5)[OF u sh len j] .
    then show ?thesis
      by (auto simp: final_of_def keep_best_def sample_of_def split: if_splits)
  qed
  have 2: "\<exists>new. history s3 = new @ history s2 \<and> improved a x i new s2 s3"
    if h: "inner_loop e a x y y_onehot iis s2 = Inr s3 \<and> inner_shaped (length x) s2
      \<and> i < length x"
  proof -
    from h obtain new where t: "tracked e a x y new s2 s3"
      using inner_loop_tracks[OF _ _ ly grad, of a y_onehot iis s2 s3] by blast
    have "improved a x i new s2 s3" using tracked_improved[OF t] h by blast
    moreover have "history s3 = new @ history s2" using t by (simp add: tracked_def)
    ultimately show ?thesis by blast
  qed
  have 3: "\<exists>new. history s5 = new @ history s4 \<and> improved a x i new s4 s5"
    if h: "outer_loop e a x y y_onehot steps s4 = Inr s5 \<and> final_shaped (length x) s4
      \<and> i < length x"
  proof -
    from h obtain new where t: "tracked e a x y new s4 s5"
      using outer_loop_tracks[OF _ _ ly grad, of a y_onehot steps s4 s5] by blast
    have "improved a x i new s4 s5" using tracked_improved[OF t] h by blast
    moreover have "history s5 = new @ history s4" using t by (simp add: tracked_def)
    ultimately show ?thesis by blast
  qed
  have 4: "improved a x i (history s) (init_state a x y) s"
    if h: "perturb_state e a x y = Inr s \<and> i < length x"
  proof -
    from h have p: "perturb_state e a x y = Inr s" and i: "i < length x" by simp_all
    note t = perturb_state_tracks[OF p ly grad]
    have "tracked e a x y (history s) (init_state a x y) s"
      using t by (simp add: tracked_def init_state_def final_of_def)
    then show ?thesis using i by (rule tracked_improved)
  qed
  from 1 2 3 4 show ?thesis by blast
qed

lemma demo_valid:
  "0 < num_classes demo_attack"
  "decision_rule demo_attack = ''EN'' \<or> decision_rule demo_attack = ''L1''"
  "list_all (\<lambda>l. 0 \<le> l \<and> l < int (num_classes demo_attack)) [0]"
  by (simp_all add: demo_attack_def)

lemma demo_grad: "length (backward demo_env x' sl yo c) = length sl"
  by (simp add: demo_env_def)

lemma stubborn_grad: "length (backward stubborn_env x' sl yo c) = length sl"
  by (simp add: stubborn_env_def demo_env_def)

lemma demo_returns: "\<exists>s. perturb_state demo_env demo_attack [[2 / 5]] [0] = Inr s"
  using perturb_state_total[where x = "[[2 / 5]]" and e = demo_env, OF demo_valid _ _ demo_grad]
  by simp

theorem C1_final_dist_monotone_witness:
  "length [0 :: int] = length [[2 / 5 :: real]]
   \<and> (\<forall>x' sl yo c. length (backward demo_env x' sl yo c) = length sl)
   \<and> (\<exists>s. perturb_state demo_env demo_attack [[2 / 5]] [0] = Inr s
          \<and> improved demo_attack [[2 / 5]] 0 (history s) (init_state demo_attack [[2 / 5]] [0]) s)"
proof -
  obtain s where s: "perturb_state demo_env demo_attack [[2 / 5]] [0] = Inr s"
    using demo_returns by blast
  have ly: "length [0 :: int] = length [[2 / 5 :: real]]" by simp
  have "improved demo_attack [[2 / 5]] 0 (history s) (init_state demo_attack [[2 / 5]] [0]) s"
    using C1_final_dist_monotone[where e = demo_env and a = demo_attack and x = "[[2 / 5]]"
        and y = "[0]" and s = s and i = 0, OF ly demo_grad] s
    by simp
  then show ?thesis using s demo_grad by auto
qed

lemma final_of_cases:
  assumes p: "perturb_state e a x y = Inr s"
    and ly: "length y = length x"
    and grad: "\<And>x' sl yo c. length (backward e x' sl yo c) = length sl"
    and i: "i < length x"
  shows "final_of i s = (DIST_UPPER, INVALID_LABEL, x ! i)
     \<or> (\<exists>adv d. (adv, d, predict_batch e a adv) \<in> set (history s) \<and> length adv = length x
          \<and> final_of i s = (d ! i, int (argmax (predict_batch e a adv ! i)), adv ! i)
          \<and> row_successful a (predict_batch e a adv ! i) (y ! i))"
proof -
  note t = perturb_state_tracks[OF p ly grad]
  let ?b = "(DIST_UPPER, INVALID_LABEL, x ! i)"
  have f: "final_of i s = replay a (y ! i) i (history s) ?b" using t(3)[OF i] .
  from replay_achieved[of a "y ! i" i "history s" ?b]
  show ?thesis
  proof
    assume "replay a (y ! i) i (history s) ?b = ?b"
    then show ?thesis using f by simp
  next
    assume "\<exists>c\<in>set (history s). replay a (y ! i) i (history s) ?b
          = (fst (sample_of i c), int (argmax (snd (snd (sample_of i c)))), fst (snd (sample_of i c)))
        \<and> row_successful a (snd (snd (sample_of i c))) (y ! i)
        \<and> fst (sample_of i c) < fst ?b"
    then obtain c where c: "c \<in> set (history s)"
      and r: "final_of i s = (fst (sample_of i c), int (argmax (snd (snd (sample_of i c)))),
                fst (snd (sample_of i c)))"
      and ok: "row_successful a (snd (snd (sample_of i c))) (y ! i)"
      using f by auto
    obtain adv d out where cc: "c = (adv, d, out)" by (cases c)
    have "candidate_call e a x c" using t(1) c by (simp add: list_all_iff)
    then have out: "out = predict_batch e a adv" and la: "length adv = length x"
      by (simp_all add: candidate_call_def cc)
    have "(adv, d, predict_batch e a adv) \<in> set (history s)" using c cc out by simp
    moreover have "final_of i s = (d ! i, int (argmax (predict_batch e a adv ! i)), adv ! i)"
      using r by (simp add: sample_of_def cc out)
    moreover have "row_successful a (predict_batch e a adv ! i) (y ! i)"
      using ok by (simp add: sample_of_def cc out)
    ultimately show ?thesis using la by blast
  qed
qed

text \<open>
  Claim C2: when \<open>final_labels[i]\<close> is a class at the end of \<open>perturb\<close>, the
  classifier's scores for \<open>final_advs[i]\<close> pass the confidence-adjusted success
  predicate (\<open>_is_successful\<close> on logits, with the attack's \<open>targeted\<close> and
  \<open>confidence\<close>) for the label \<open>y[i]\<close>.
\<close>

theorem C2_success_consistency:
  assumes p: "perturb_state e a x y = Inr s"
    and ly: "length y = length x"
    and grad: "\<And>x' sl yo c. length (backward e x' sl yo c) = length sl"
    and i: "i < length x"
    and v: "final_labels s ! i \<noteq> INVALID_LABEL"
  shows "is_successful_logits a (predict_batch e a [final_advs s ! i]) [y ! i] = Inr [True]"
proof -
  from final_of_cases[OF p ly grad i] v obtain adv d where
    la: "length adv = length x"
    and f: "final_of i s = (d ! i, int (argmax (predict_batch e a adv ! i)), adv ! i)"
    and ok: "row_successful a (predict_batch e a adv ! i) (y ! i)"
    by (auto simp: final_of_def)
  have adv: "final_advs s ! i = adv ! i" using f by (simp add: final_of_def)
  have row: "predict_batch e a adv ! i = map (predict e (adv ! i)) [0..<num_classes a]"
    using la i by (simp add: predict_batch_def)
  have ok': "row_successful a (map (predict e (adv ! i)) [0..<num_classes a]) (y ! i)"
    using ok row by simp
  then have "py_index (num_classes a) (y ! i) \<noteq> None"
    by (auto simp: row_successful_def split: option.splits)
  then show ?thesis
    using ok' by (simp add: is_successful_logits_def labels_index_def predict_batch_def adv)
qed

text \<open>
  An empty batch is refused: the first gradient step asks for the distance of two empty
  batches.
\<close>

lemma perturb_empty_batch: "perturb demo_env demo_attack [] [] = Inl RuntimeError"
  by code_simp

text \<open>
  Claim C3, as stated, says that callers can detect a failed sample by the sentinel.
  \<open>perturb\<close> returns \<open>final_advs\<close> only; \<open>final_labels\<close> is a local variable.
  For the input \<open>0.6\<close>, which the first classifier already assigns to class 1 and the
  second never does, both runs return the input unchanged, one with
  \<open>final_labels = [1]\<close> (a success at distortion 0) and one with
  \<open>final_labels = [-1]\<close> (no success): the returned batch does not tell them apart.
\<close>

theorem C3_sentinel_not_returned_counterexample:
  "perturb demo_env demo_attack [[3 / 5]] [0] = Inr [[3 / 5]]
   \<and> perturb stubborn_env demo_attack [[3 / 5]] [0] = Inr [[3 / 5]]
   \<and> (case perturb_state demo_env demo_attack [[3 / 5]] [0] of
         Inl err \<Rightarrow> [] | Inr s \<Rightarrow> final_labels s) = [1]
   \<and> (case perturb_state stubborn_env demo_attack [[3 / 5]] [0] of
         Inl err \<Rightarrow> [] | Inr s \<Rightarrow> final_labels s) = [- 1]"
proof -
  have "perturb demo_env demo_attack [[3 / 5]] [0] = Inr [[3 / 5]]"
    by code_simp
  moreover have "perturb stubborn_env demo_attack [[3 / 5]] [0] = Inr [[3 / 5]]"
    by code_simp
  moreover have "(case perturb_state demo_env demo_attack [[3 / 5]] [0] of
         Inl err \<Rightarrow> [] | Inr s \<Rightarrow> final_labels s) = [1]"
    by code_simp
  moreover have "(case perturb_state stubborn_env demo_attack [[3 / 5]] [0] of
         Inl err \<Rightarrow> [] | Inr s \<Rightarrow> final_labels s) = [- 1]"
    by code_simp
  ultimately show ?thesis by blast
qed

text \<open>
  Claim C3, amended: for a batch with at least one sample, a decision rule the code
  knows, at least one class and labels inside the classes, \<open>perturb\<close> returns without
  an error, and what it returns is \<open>final_advs\<close>; for every sample for which no
  candidate handed to the best-tracking update was a confidence-adjusted success,
  \<open>final_advs[i]\<close> is the input \<open>x[i]\<close> and the local \<open>final_labels[i]\<close> is still
  \<open>INVALID_LABEL\<close>.
\<close>

theorem C3_no_success_keeps_input:
  assumes c: "0 < num_classes a"
    and r: "decision_rule a = ''EN'' \<or> decision_rule a = ''L1''"
    and y: "list_all (\<lambda>l. 0 \<le> l \<and> l < int (num_classes a)) y"
    and ne: "x \<noteq> []"
    and ly: "length y = length x"
    and grad: "\<And>x' sl yo c. length (backward e x' sl yo c) = length sl"
  shows "\<exists>s. perturb_state e a x y = Inr s \<and> perturb e a x y = Inr (final_advs s)
     \<and> (\<forall>i<length x.
          (\<forall>c\<in>set (history s). \<not> row_successful a (snd (snd c) ! i) (y ! i))
          \<longrightarrow> final_advs s ! i = x ! i \<and> final_labels s ! i = INVALID_LABEL)"
proof -
  from perturb_state_total[OF c r y ne ly grad] obtain s where
    p: "perturb_state e a x y = Inr s"
    by blast
  have "final_advs s ! i = x ! i \<and> final_labels s ! i = INVALID_LABEL"
    if i: "i < length x"
      and no: "\<forall>c\<in>set (history s). \<not> row_successful a (snd (snd c) ! i) (y ! i)" for i
  proof -
    from final_of_cases[OF p ly grad i] no
    have "final_of i s = (DIST_UPPER, INVALID_LABEL, x ! i)" by force
    then show ?thesis by (simp add: final_of_def)
  qed
  then show ?thesis using p by (auto simp: perturb_def)
qed

lemma demo_run:
  "(case perturb_state demo_env demo_attack [[2 / 5]] [0] of
      Inl err \<Rightarrow> None | Inr s \<Rightarrow> Some (final_dist s, final_labels s, final_advs s))
   = Some ([19 / 500], [1], [[59 / 100]])"
  by code_simp

lemma stubborn_run:
  "(case perturb_state stubborn_env demo_attack [[1 / 2]] [0] of
      Inl err \<Rightarrow> None
    | Inr s \<Rightarrow> Some (list_all (\<lambda>c. \<not> row_successful demo_attack (snd (snd c) ! 0) 0) (history s),
                     final_labels s, final_advs s))
   = Some (True, [- 1], [[1 / 2]])"
  by code_simp

theorem C2_success_consistency_witness:
  "\<exists>s. perturb_state demo_env demo_attack [[2 / 5]] [0] = Inr s
     \<and> length [0 :: int] = length [[2 / 5 :: real]]
     \<and> (\<forall>x' sl yo c. length (backward demo_env x' sl yo c) = length sl)
     \<and> 0 < length [[2 / 5 :: real]]
     \<and> final_labels s ! 0 \<noteq> INVALID_LABEL
     \<and> is_successful_logits demo_attack (predict_batch demo_env demo_attack [final_advs s ! 0])
           [[0] ! 0] = Inr [True]"
proof -
  obtain s where s: "perturb_state demo_env demo_attack [[2 / 5]] [0] = Inr s"
    using demo_returns by blast
  have v: "final_labels s ! 0 \<noteq> INVALID_LABEL"
    using demo_run by (simp add: s INVALID_LABEL_def)
  have ly: "length [0 :: int] = length [[2 / 5 :: real]]" by simp
  have i: "0 < length [[2 / 5 :: real]]" by simp
  show ?thesis
    using C2_success_consistency[OF s ly demo_grad i v] s v demo_grad by auto
qed

theorem C3_no_success_keeps_input_witness:
  "0 < num_classes demo_attack
   \<and> (decision_rule demo_attack = ''EN'' \<or> decision_rule demo_attack = ''L1'')
   \<and> list_all (\<lambda>l. 0 \<le> l \<and> l < int (num_classes demo_attack)) [0]
   \<and> [[1 / 2 :: real]] \<noteq> []
   \<and> length [0 :: int] = length [[1 / 2 :: real]]
   \<and> (\<forall>x' sl yo c. length (backward stubborn_env x' sl yo c) = length sl)
   \<and> (\<exists>s. perturb_state stubborn_env demo_attack [[1 / 2]] [0] = Inr s
        \<and> perturb stubborn_env demo_attack [[1 / 2]] [0] = Inr [[1 / 2]]
        \<and> (\<forall>c\<in>set (history s). \<not> row_successful demo_attack (snd (snd c) ! 0) ([0] ! 0))
        \<and> final_advs s ! 0 = [[1 / 2]] ! 0 \<and> final_labels s ! 0 = INVALID_LABEL)"
proof -
  have ly: "length [0 :: int] = length [[1 / 2 :: real]]" by simp
  have ne: "[[1 / 2 :: real]] \<noteq> []" by simp
  from C3_no_success_keeps_input[OF demo_valid ne ly stubborn_grad]
  obtain s where s: "perturb_state stubborn_env demo_attack [[1 / 2]] [0] = Inr s"
    and p: "perturb stubborn_env demo_attack [[1 / 2]] [0] = Inr (final_advs s)"
    and k: "\<forall>i<length [[1 / 2 :: real]].
          (\<forall>c\<in>set (history s). \<not> row_successful demo_attack (snd (snd c) ! i) ([0] ! i))
          \<longrightarrow> final_advs s ! i = [[1 / 2]] ! i \<and> final_labels s ! i = INVALID_LABEL"
    by blast
  have no: "\<forall>c\<in>set (history s). \<not> row_successful demo_attack (snd (snd c) ! 0) ([0] ! 0)"
    and fa: "final_advs s = [[1 / 2]]"
    using stubborn_run by (simp_all add: s list_all_iff)
  from k no have "final_advs s ! 0 = [[1 / 2]] ! 0 \<and> final_labels s ! 0 = INVALID_LABEL"
    by simp
  then show ?thesis
    using demo_valid ly stubborn_grad s p no fa by auto
qed

subsection \<open>The box constraint\<close>

lemma assign_newimg_in_box:
  assumes b: "0 \<le> beta a" and x: "in_box a x"
  shows "in_box a (assign_newimg a x s)"
  using x unfolding assign_newimg_cases[OF b] in_box_def clamp_max_def clamp_min_def
  by auto

lemma fista_image_boxed:
  assumes b: "0 \<le> beta a" and x: "list_all (in_box a) xi"
  shows "list_all (in_box a) (snd (fista_image a step xi si ni))"
  unfolding list_all_iff
proof
  fix v assume "v \<in> set (snd (fista_image a step xi si ni))"
  then obtain xe se ne where m: "(xe, se, ne) \<in> set (zip xi (zip si ni))"
    and v: "v = snd (fista_elem a step xe se ne)"
    by (auto simp: fista_image_def Let_def)
  from m have "xe \<in> set xi" by (rule set_zip_leftD)
  then have "in_box a xe" using x by (simp add: list_all_iff)
  then show "in_box a v"
    using assign_newimg_in_box[OF b] by (simp add: v fista_elem_def Let_def)
qed

lemma fista_boxed:
  assumes b: "0 \<le> beta a" and x: "boxed a x"
  shows "boxed a (snd (fast_iterative_shrinkage_thresholding a step x sl ni))"
  unfolding boxed_def list_all_iff[of _ "snd _"]
proof
  fix img assume "img \<in> set (snd (fast_iterative_shrinkage_thresholding a step x sl ni))"
  then obtain xi si ni' where m: "(xi, si, ni') \<in> set (zip x (zip sl ni))"
    and v: "img = snd (fista_image a step xi si ni')"
    by (auto simp: fast_iterative_shrinkage_thresholding_def Let_def)
  from m have "xi \<in> set x" by (rule set_zip_leftD)
  then have "list_all (in_box a) xi" using x by (simp add: boxed_def list_all_iff)
  then show "list_all (in_box a) img"
    unfolding v by (rule fista_image_boxed[OF b])
qed

text \<open>
  Claim C5, amended: for \<open>beta \<ge> 0\<close> and an input batch with every element in
  \<open>[clip_min, clip_max]\<close>, every candidate image of the proximal step has every element
  in \<open>[clip_min, clip_max]\<close>, whatever the step counter, the slack and the previous
  candidate are, and so has every candidate handed to the best-tracking update and every
  image of \<open>final_advs\<close> at the end of \<open>perturb\<close>.
\<close>

theorem C5_box_constraint:
  assumes b: "0 \<le> beta a" and x: "boxed a x"
    and ly: "length y = length x"
    and grad: "\<And>x' sl yo c. length (backward e x' sl yo c) = length sl"
  shows "boxed a (snd (fast_iterative_shrinkage_thresholding a step x sl ni))
     \<and> (perturb_state e a x y = Inr s
          \<longrightarrow> list_all (\<lambda>c. boxed a (fst c)) (history s) \<and> boxed a (final_advs s))"
proof -
  have h: "list_all (\<lambda>c. boxed a (fst c)) (history s) \<and> boxed a (final_advs s)"
    if p: "perturb_state e a x y = Inr s"
  proof -
    note t = perturb_state_tracks[OF p ly grad]
    have cand: "boxed a adv" if "(adv, d, out) \<in> set (history s)" for adv d out
    proof -
      have "candidate_call e a x (adv, d, out)" using t(1) that by (simp add: list_all_iff)
      then obtain step' sl' ni' where
        "adv = snd (fast_iterative_shrinkage_thresholding a step' x sl' ni')"
        by (auto simp: candidate_call_def)
      then show ?thesis using fista_boxed[OF b x] by simp
    qed
    then have 1: "list_all (\<lambda>c. boxed a (fst c)) (history s)"
      by (auto simp: list_all_iff)
    have "list_all (in_box a) (final_advs s ! i)" if i: "i < length x" for i
    proof -
      from final_of_cases[OF p ly grad i]
      have "final_advs s ! i = x ! i
          \<or> (\<exists>adv d out. (adv, d, out) \<in> set (history s) \<and> length adv = length x
                \<and> final_advs s ! i = adv ! i)"
        by (auto simp: final_of_def)
      then show ?thesis
      proof
        assume "final_advs s ! i = x ! i"
        then show ?thesis using x i by (simp add: boxed_def list_all_length)
      next
        assume "\<exists>adv d out. (adv, d, out) \<in> set (history s) \<and> length adv = length x
                \<and> final_advs s ! i = adv ! i"
        then obtain adv d out where "(adv, d, out) \<in> set (history s)"
          "length adv = length x" "final_advs s ! i = adv ! i" by blast
        then show ?thesis using cand[of adv d out] i by (simp add: boxed_def list_all_length)
      qed
    qed
    then have 2: "boxed a (final_advs s)"
      using t(2) by (simp add: boxed_def final_shaped_def list_all_length[of _ "final_advs s"])
    from 1 2 show ?thesis ..
  qed
  show ?thesis using fista_boxed[OF b x] h by blast
qed

text \<open>
  Claim C5, as stated, at a negative \<open>beta\<close>: with \<open>beta = -0.5\<close> and the input
  \<open>0.6\<close> in \<open>[0, 1]\<close>, which the classifier already assigns to class 1, the
  gradient is zero and the slack stays \<open>0.6\<close>; the first and the third condition of
  the proximal step both hold and the candidate is \<open>1 + 0.1 = 1.1\<close>, which the
  classifier accepts and \<open>perturb\<close> returns.
\<close>

theorem C5_negative_beta_counterexample:
  "boxed negative_beta_attack [[6 / 10]]
   \<and> perturb demo_env negative_beta_attack [[6 / 10]] [0] = Inr [[11 / 10]]
   \<and> \<not> boxed negative_beta_attack [[11 / 10]]"
proof -
  have "perturb demo_env negative_beta_attack [[6 / 10]] [0] = Inr [[11 / 10]]"
    by code_simp
  then show ?thesis
    by (simp add: boxed_def in_box_def negative_beta_attack_def demo_attack_def)
qed

theorem C5_box_constraint_witness:
  "0 \<le> beta demo_attack \<and> boxed demo_attack [[2 / 5]]
   \<and> length [0 :: int] = length [[2 / 5 :: real]]
   \<and> (\<forall>x' sl yo c. length (backward demo_env x' sl yo c) = length sl)
   \<and> boxed demo_attack (snd (fast_iterative_shrinkage_thresholding demo_attack 1 [[2 / 5]]
          [[6 / 10]] [[2 / 5]]))
   \<and> (\<exists>s. perturb_state demo_env demo_attack [[2 / 5]] [0] = Inr s
          \<and> list_all (\<lambda>c. boxed demo_attack (fst c)) (history s)
          \<and> boxed demo_attack (final_advs s))"
proof -
  have b: "0 \<le> beta demo_attack" by (simp add: demo_attack_def)
  have x: "boxed demo_attack [[2 / 5]]" by (simp add: boxed_def in_box_def demo_attack_def)
  have ly: "length [0 :: int] = length [[2 / 5 :: real]]" by simp
  obtain s where s: "perturb_state demo_env demo_attack [[2 / 5]] [0] = Inr s"
    using demo_returns by blast
  show ?thesis
    using C5_box_constraint[OF b x ly demo_grad, of 1 "[[6 / 10]]" "[[2 / 5]]" s] b x s demo_grad
    by auto
qed

subsection \<open>The sentinel in the coefficient update\<close>

text \<open>
  Claim C10: in non-logits mode \<open>_is_successful\<close> reports no success for the
  prediction \<open>INVALID_LABEL\<close>, whatever the label, the \<open>targeted\<close> flag and the
  confidence are; the loop body of \<open>_update_loss_coeffs\<close> then takes its failure
  branch; and after an outer step, every sample for which no candidate of that step's
  inner loop was a success still has \<open>cur_labels[i] = INVALID_LABEL\<close> and is updated
  as a failure.
\<close>

theorem C10_sentinel_is_no_success:
  assumes ly: "length y = length x"
    and grad: "\<And>x' sl yo c. length (backward e x' sl yo c) = length sl"
  shows "\<not> is_successful_label a INVALID_LABEL label
     \<and> (cl ! ii = INVALID_LABEL
          \<longrightarrow> update_loss_coeffs_at a labs cl lc ub lb ii h =
               (let h1 = store_set h lb ii (max (h lb ! ii) (h lc ! ii))
                in if h1 ub ! ii < UPPER_CHECK
                   then store_set h1 lc ii ((h1 lb ! ii + h1 ub ! ii) / 2)
                   else store_set h1 lc ii (h1 lc ! ii * 10)))
     \<and> (outer_body e a x y y_onehot k s = Inr s' \<and> final_shaped (length x) s \<and> i < length x
          \<and> (\<forall>c\<in>set (take (length (history s') - length (history s)) (history s')).
                 \<not> row_successful a (snd (snd c) ! i) (y ! i))
          \<longrightarrow> cur_labels s' ! i = INVALID_LABEL
              \<and> \<not> is_successful_label a (cur_labels s' ! i) (y ! i)
              \<and> heap s' = update_loss_coeffs a y (cur_labels s') (length x) (loss_coeffs s')
                             CoeffUpper CoeffLower (heap s))"
proof -
  have 1: "\<not> is_successful_label a INVALID_LABEL l" for l
    by (simp add: is_successful_label_def)
  have 2: "update_loss_coeffs_at a labs cl lc ub lb ii h =
               (let h1 = store_set h lb ii (max (h lb ! ii) (h lc ! ii))
                in if h1 ub ! ii < UPPER_CHECK
                   then store_set h1 lc ii ((h1 lb ! ii + h1 ub ! ii) / 2)
                   else store_set h1 lc ii (h1 lc ! ii * 10))"
    if "cl ! ii = INVALID_LABEL"
    using that by (simp add: update_loss_coeffs_at_def is_successful_label_def)
  have 3: "cur_labels s' ! i = INVALID_LABEL
              \<and> \<not> is_successful_label a (cur_labels s' ! i) (y ! i)
              \<and> heap s' = update_loss_coeffs a y (cur_labels s') (length x) (loss_coeffs s')
                             CoeffUpper CoeffLower (heap s)"
    if h: "outer_body e a x y y_onehot k s = Inr s' \<and> final_shaped (length x) s \<and> i < length x
          \<and> (\<forall>c\<in>set (take (length (history s') - length (history s)) (history s')).
                 \<not> row_successful a (snd (snd c) ! i) (y ! i))"
  proof -
    from h have ob: "outer_body e a x y y_onehot k s = Inr s'"
      and sh: "final_shaped (length x) s" and i: "i < length x" by simp_all
    from outer_body_tracks[OF ob sh ly grad] obtain new where
      t: "tracked e a x y new s s'"
      and c: "\<forall>i<length x. \<forall>img. \<exists>img'.
          replay a (y ! i) i new (DIST_UPPER, INVALID_LABEL, img)
            = (cur_dist s' ! i, cur_labels s' ! i, img')"
      and hp: "heap s' = update_loss_coeffs a y (cur_labels s') (length x) (loss_coeffs s')
                   CoeffUpper CoeffLower (heap s)"
      by blast
    have "history s' = new @ history s" using t by (simp add: tracked_def)
    then have "take (length (history s') - length (history s)) (history s') = new" by simp
    with h have "\<forall>c\<in>set new. \<not> row_successful a (snd (snd (sample_of i c))) (y ! i)"
      by (auto simp: sample_of_def split: prod.splits)
    then have "replay a (y ! i) i new (DIST_UPPER, INVALID_LABEL, []) = (DIST_UPPER, INVALID_LABEL, [])"
      by (rule replay_no_success)
    moreover from c i obtain img' where
      "replay a (y ! i) i new (DIST_UPPER, INVALID_LABEL, []) = (cur_dist s' ! i, cur_labels s' ! i, img')"
      by blast
    ultimately have "cur_labels s' ! i = INVALID_LABEL" by simp
    then show ?thesis using hp 1 by simp
  qed
  from 1 2 3 show ?thesis by blast
qed

lemma stubborn_step:
  "(case outer_body stubborn_env demo_attack [[1 / 2]] [0] [[1, 0]] 0
           (init_state demo_attack [[1 / 2]] [0]) of
      Inl err \<Rightarrow> None
    | Inr s \<Rightarrow> Some (list_all (\<lambda>c. \<not> row_successful demo_attack (snd (snd c) ! 0) 0) (history s),
                     cur_labels s, heap s LossCoeffs, heap s CoeffLower, heap s CoeffUpper))
   = Some (True, [- 1], [20], [2], [10 ^ 10])"
  by code_simp

theorem C10_sentinel_is_no_success_witness:
  "length [0 :: int] = length [[1 / 2 :: real]]
   \<and> (\<forall>x' sl yo c. length (backward stubborn_env x' sl yo c) = length sl)
   \<and> \<not> is_successful_label demo_attack INVALID_LABEL 0
   \<and> (\<exists>s'. outer_body stubborn_env demo_attack [[1 / 2]] [0] [[1, 0]] 0
              (init_state demo_attack [[1 / 2]] [0]) = Inr s'
          \<and> final_shaped (length [[1 / 2 :: real]]) (init_state demo_attack [[1 / 2]] [0])
          \<and> cur_labels s' ! 0 = INVALID_LABEL
          \<and> heap s' LossCoeffs = [20])"
proof -
  let ?s = "init_state demo_attack [[1 / 2]] [0]"
  have ly: "length [0 :: int] = length [[1 / 2 :: real]]" by simp
  have sh: "final_shaped (length [[1 / 2 :: real]]) ?s"
    by (simp add: final_shaped_def init_state_def)
  have ne: "[[1 / 2 :: real]] \<noteq> []" by simp
  obtain s' where ob: "outer_body stubborn_env demo_attack [[1 / 2]] [0] [[1, 0]] 0 ?s = Inr s'"
    using outer_body_total[OF demo_valid ne ly stubborn_grad sh] by blast
  have hs: "history ?s = []" by (simp add: init_state_def)
  have ev: "list_all (\<lambda>c. \<not> row_successful demo_attack (snd (snd c) ! 0) 0) (history s')"
    "heap s' LossCoeffs = [20]"
    using stubborn_step by (simp_all add: ob)
  then have no: "\<forall>c\<in>set (take (length (history s') - length (history ?s)) (history s')).
                 \<not> row_successful demo_attack (snd (snd c) ! 0) ([0] ! 0)"
    by (simp add: hs list_all_iff)
  have "cur_labels s' ! 0 = INVALID_LABEL"
    using C10_sentinel_is_no_success[where e = stubborn_env and a = demo_attack
        and x = "[[1 / 2]]" and y = "[0]" and s = ?s and s' = s' and i = 0 and k = 0
        and y_onehot = "[[1, 0]]" and label = 0, OF ly stubborn_grad] ob sh no
    by simp
  moreover have "\<not> is_successful_label demo_attack INVALID_LABEL 0"
    using C10_sentinel_is_no_success[where e = stubborn_env and a = demo_attack
        and x = "[[1 / 2]]" and y = "[0]" and label = 0, OF ly stubborn_grad]
    by simp
  ultimately show ?thesis using ob sh ev stubborn_grad by auto
qed

subsection \<open>An unknown decision rule\<close>

text \<open>
  Claim C4 at \<open>decision_rule = 'L2'\<close>: the constructor accepts the rule; \<open>run\<close>
  fails for every candidate, because neither branch assigns \<open>crit\<close>, and \<open>perturb\<close>
  calls it only inside the inner loop, after the first gradient step; with no inner
  iteration to run, \<open>perturb\<close> returns the copy of the input and reports nothing.
\<close>

theorem C4_unknown_rule_not_rejected:
  "init 2 0 False (1 / 10) 1 1 False 2 0 1 (1 / 100) ''L2'' = Inr bad_rule_attack
   \<and> run demo_env bad_rule_attack [[2 / 5]] [[59 / 100]] [[1, 0]] [2] = Inl UnboundLocalError
   \<and> perturb demo_env bad_rule_attack [[2 / 5]] [0] = Inl UnboundLocalError
   \<and> perturb demo_env (bad_rule_attack\<lparr> max_iterations := 0 \<rparr>) [[2 / 5]] [0] = Inr [[2 / 5]]"
proof -
  have "init 2 0 False (1 / 10) 1 1 False 2 0 1 (1 / 100) ''L2'' = Inr bad_rule_attack"
    by (simp add: init_def bad_rule_attack_def demo_attack_def REPEAT_STEP_def)
  moreover have "run demo_env bad_rule_attack [[2 / 5]] [[59 / 100]] [[1, 0]] [2]
      = Inl UnboundLocalError"
    by (simp add: run_def calc_l2distsq_def calc_l1dist_def crit_of_def loss_fn_def
        bad_rule_attack_def demo_attack_def Let_def)
  moreover have "perturb demo_env bad_rule_attack [[2 / 5]] [0] = Inl UnboundLocalError"
    by code_simp
  moreover have "perturb demo_env (bad_rule_attack\<lparr> max_iterations := 0 \<rparr>) [[2 / 5]] [0]
      = Inr [[2 / 5]]"
    by code_simp
  ultimately show ?thesis by blast
qed

subsection \<open>The bounds of the binary search\<close>

text \<open>
  As long as \<open>loss_coeffs\<close> is a tensor of its own, the update of a sample moves
  neither bound outwards; the lower bound never falls in either case.
\<close>

lemma update_loss_coeffs_at_bounds:
  assumes "ii < length (h CoeffLower)" and "ii < length (h CoeffUpper)"
    and "ii < length (h LossCoeffs)"
  shows "update_loss_coeffs_at a labs cl LossCoeffs CoeffUpper CoeffLower ii h CoeffUpper ! ii
           \<le> h CoeffUpper ! ii"
    and "h CoeffLower ! ii
           \<le> update_loss_coeffs_at a labs cl LossCoeffs CoeffUpper CoeffLower ii h CoeffLower ! ii"
    and "h CoeffLower ! ii
           \<le> update_loss_coeffs_at a labs cl CoeffUpper CoeffUpper CoeffLower ii h CoeffLower ! ii"
  using assms by (auto simp: update_loss_coeffs_at_def store_set_def Let_def)

text \<open>
  Claim C6 at ten binary-search steps and a sample that never succeeds: the last outer
  step binds \<open>loss_coeffs\<close> to the tensor of the upper bounds, and the update after it
  multiplies \<open>loss_coeffs[0]\<close> by 10 in place, which is \<open>coeff_upper_bound[0]\<close>:
  the upper bound is \<open>1e10\<close> after nine steps and \<open>1e11\<close> at the end.
\<close>

theorem C6_upper_bound_grows_in_last_step:
  "init 2 0 False (1 / 10) 10 1 False 2 0 1 (1 / 100) ''EN'' = Inr repeat_attack
   \<and> (case outer_loop stubborn_env repeat_attack [[1 / 2]] [0] [[1, 0]] [0..<9]
             (init_state repeat_attack [[1 / 2]] [0])
       of Inl err \<Rightarrow> [] | Inr s \<Rightarrow> heap s CoeffUpper) = [10 ^ 10]
   \<and> (case perturb_state stubborn_env repeat_attack [[1 / 2]] [0]
       of Inl err \<Rightarrow> [] | Inr s \<Rightarrow> heap s CoeffUpper) = [10 ^ 11]"
proof -
  have "init 2 0 False (1 / 10) 10 1 False 2 0 1 (1 / 100) ''EN'' = Inr repeat_attack"
    by (simp add: init_def repeat_attack_def demo_attack_def REPEAT_STEP_def)
  moreover have "(case outer_loop stubborn_env repeat_attack [[1 / 2]] [0] [[1, 0]] [0..<9]
             (init_state repeat_attack [[1 / 2]] [0])
       of Inl err \<Rightarrow> [] | Inr s \<Rightarrow> heap s CoeffUpper) = [10 ^ 10]"
    by code_simp
  moreover have "(case perturb_state stubborn_env repeat_attack [[1 / 2]] [0]
       of Inl err \<Rightarrow> [] | Inr s \<Rightarrow> heap s CoeffUpper) = [10 ^ 11]"
    by code_simp
  ultimately show ?thesis by blast
qed

end
